theory Spec2Isabelle
  imports Main "HOL-Library.List_Lexorder" "HOL-Library.Char_ord"
begin

section \<open>Python values, exceptions and subscripting\<close>

text \<open>
  The pipeline of \<^verbatim>\<open>src/core/rag_pipeline.py\<close> is embedded function by function.
  A Python exception that leaves a function is the \<open>Inl\<close> branch of its result.
\<close>

datatype py_error =
    AttributeError
  | IndexError
  | KeyError
  | TypeError
  | ValueError
  | OSError
  | OtherError

text \<open>
  What \<^verbatim>\<open>response.json()\<close> returns. Python's \<^verbatim>\<open>None\<close> is \<open>JNull\<close>; a dict is the list of
  its items (keys distinct, as \<^verbatim>\<open>json.loads\<close> leaves them). Numbers are kept as integers:
  the code only ever tests a number for truth.
\<close>

datatype json =
    JNull
  | JBool bool
  | JNum int
  | JStr string
  | JArr "json list"
  | JObj "(string \<times> json) list"

text \<open>Python truth value, as tested by \<^verbatim>\<open>if x\<close> and \<^verbatim>\<open>x and y\<close>.\<close>

fun truthy :: "json \<Rightarrow> bool" where
  "truthy JNull = False"
| "truthy (JBool b) = b"
| "truthy (JNum n) = (n \<noteq> 0)"
| "truthy (JStr s) = (s \<noteq> [])"
| "truthy (JArr xs) = (xs \<noteq> [])"
| "truthy (JObj kvs) = (kvs \<noteq> [])"

text \<open>\<^verbatim>\<open>xs[i]\<close> on a Python list: a negative \<open>i\<close> counts from the end, anything else out of
  range raises \<^verbatim>\<open>IndexError\<close>.\<close>

definition subscript :: "'a list \<Rightarrow> int \<Rightarrow> py_error + 'a" where
  "subscript xs i =
     (if 0 \<le> i
      then (if i < int (length xs) then Inr (xs ! nat i) else Inl IndexError)
      else (if - int (length xs) \<le> i then Inr (xs ! nat (int (length xs) + i))
            else Inl IndexError))"

text \<open>A list comprehension \<^verbatim>\<open>[f(x) for x in xs]\<close> whose body may raise: the first exception
  ends it.\<close>

fun comprehension :: "('a \<Rightarrow> py_error + 'b) \<Rightarrow> 'a list \<Rightarrow> py_error + 'b list" where
  "comprehension f [] = Inr []"
| "comprehension f (x # xs) =
     (case f x of
        Inl e \<Rightarrow> Inl e
      | Inr y \<Rightarrow> (case comprehension f xs of Inl e \<Rightarrow> Inl e | Inr ys \<Rightarrow> Inr (y # ys)))"

text \<open>\<^verbatim>\<open>r[0]\<close> and \<^verbatim>\<open>r["key"]\<close> on a parsed JSON value.\<close>

fun item0 :: "json \<Rightarrow> py_error + json" where
  "item0 (JArr []) = Inl IndexError"
| "item0 (JArr (x # xs)) = Inr x"
| "item0 (JStr []) = Inl IndexError"
| "item0 (JStr (c # cs)) = Inr (JStr [c])"
| "item0 (JObj kvs) = Inl KeyError"
| "item0 JNull = Inl TypeError"
| "item0 (JBool b) = Inl TypeError"
| "item0 (JNum n) = Inl TypeError"

fun item :: "json \<Rightarrow> string \<Rightarrow> py_error + json" where
  "item (JObj kvs) key = (case map_of kvs key of None \<Rightarrow> Inl KeyError | Some v \<Rightarrow> Inr v)"
| "item JNull key = Inl TypeError"
| "item (JBool b) key = Inl TypeError"
| "item (JNum n) key = Inl TypeError"
| "item (JStr s) key = Inl TypeError"
| "item (JArr xs) key = Inl TypeError"

section \<open>Files and configuration\<close>

text \<open>
  The part of the file system the pipeline touches:
  \<^item> \<open>kb_listing\<close>: what \<^verbatim>\<open>os.listdir(KNOWLEDGE_BASE_DIR)\<close> returns, \<open>None\<close> when it raises
    (no such directory);
  \<^item> \<open>kb_read\<close>: the text of \<^verbatim>\<open>knowledge_base/<name>\<close>, \<open>None\<close> when opening or reading it
    raises;
  \<^item> \<open>vector_store_file\<close>, \<open>documents_file\<close>: the two persisted artifacts, \<open>None\<close> when the
    file does not exist. An index file holds the rows that were added, a documents file
    the JSON array of texts.
\<close>

record filesystem =
  kb_listing :: "string list option"
  kb_read :: "string \<Rightarrow> string option"
  vector_store_file :: "int list list option"
  documents_file :: "string list option"

definition endswith :: "string \<Rightarrow> string \<Rightarrow> bool" where
  "endswith f suffix =
     (length suffix \<le> length f \<and> drop (length f - length suffix) f = suffix)"

text \<open>\<^verbatim>\<open>sorted([f for f in os.listdir(KNOWLEDGE_BASE_DIR) if f.endswith(".txt")])\<close>, the expression
  of lines 53 and 96. Strings are compared lexicographically, character by character.\<close>

definition sorted_txt :: "string list \<Rightarrow> string list" where
  "sorted_txt names = sort (filter (\<lambda>f. endswith f ''.txt'') names)"

definition txt_filenames :: "filesystem \<Rightarrow> py_error + string list" where
  "txt_filenames fs =
     (case kb_listing fs of None \<Rightarrow> Inl OSError | Some names \<Rightarrow> Inr (sorted_txt names))"

section \<open>The vector index\<close>

text \<open>
  \<^verbatim>\<open>faiss.IndexFlatL2\<close> is a library, not code of this repository. It is modelled by what
  its interface promises: the rows in the order they were added, and an exact search under
  the squared Euclidean distance whose result row has exactly \<open>k\<close> labels, nearest first;
  when fewer than \<open>k\<close> rows exist the remaining labels are \<open>-1\<close>. Embeddings are integer
  vectors here (exact arithmetic in place of float32); the embedding model itself is a
  parameter \<open>encode\<close> of every function that uses it, and the embedding of a batch of
  texts is the list of their embeddings.
\<close>

definition l2sq :: "int list \<Rightarrow> int list \<Rightarrow> int" where
  "l2sq u v = sum_list (map (\<lambda>(a, b). (a - b) * (a - b)) (zip u v))"

definition nearest_rows :: "int list list \<Rightarrow> int list \<Rightarrow> nat list" where
  "nearest_rows rows q = sort_key (\<lambda>i. l2sq (rows ! i) q) [0..<length rows]"

definition search :: "int list list \<Rightarrow> int list \<Rightarrow> nat \<Rightarrow> int list" where
  "search rows q k =
     map int (take k (nearest_rows rows q)) @ replicate (k - length rows) (- 1)"

text \<open>The attribute \<^verbatim>\<open>self.index\<close>: \<open>Unset\<close> while no assignment to it has run (reading it
  raises \<^verbatim>\<open>AttributeError\<close>), \<open>PyNone\<close> when it holds \<^verbatim>\<open>None\<close>.\<close>

datatype index_attr = Unset | PyNone | IndexFlatL2 "int list list"

record rag =
  documents :: "string list"
  index :: index_attr

section \<open>Building and loading\<close>

definition load_documents :: "filesystem \<Rightarrow> py_error + string list" where
  "load_documents fs =
     (case txt_filenames fs of
        Inl e \<Rightarrow> Inl e
      | Inr filenames \<Rightarrow>
          comprehension
            (\<lambda>filename. case kb_read fs filename of None \<Rightarrow> Inl OSError | Some t \<Rightarrow> Inr t)
            filenames)"

definition build_vector_store ::
  "(string \<Rightarrow> int list) \<Rightarrow> rag \<Rightarrow> filesystem \<Rightarrow> py_error + rag \<times> filesystem" where
  "build_vector_store encode self fs =
     (case load_documents fs of
        Inl e \<Rightarrow> Inl e
      | Inr docs \<Rightarrow>
          if docs = [] then Inr (self\<lparr>documents := docs\<rparr>, fs)
          else
            let embeddings = map encode docs
            in Inr (self\<lparr>documents := docs, index := IndexFlatL2 embeddings\<rparr>,
                    fs\<lparr>vector_store_file := Some embeddings, documents_file := Some docs\<rparr>))"

text \<open>\<^verbatim>\<open>ServiceDeskRAG.__init__\<close>: it assigns \<^verbatim>\<open>self.documents\<close> and the embedding model, and
  \<^verbatim>\<open>self.index\<close> only on the paths that load or build an index.\<close>

definition init :: "(string \<Rightarrow> int list) \<Rightarrow> filesystem \<Rightarrow> py_error + rag \<times> filesystem" where
  "init encode fs =
     (let self = \<lparr>documents = [], index = Unset\<rparr>
      in case vector_store_file fs of
           None \<Rightarrow> build_vector_store encode self fs
         | Some rows \<Rightarrow>
             (case documents_file fs of
                None \<Rightarrow> build_vector_store encode self fs
              | Some docs \<Rightarrow> Inr (self\<lparr>index := IndexFlatL2 rows, documents := docs\<rparr>, fs)))"

section \<open>Retrieval\<close>

definition retrieve_context ::
  "(string \<Rightarrow> int list) \<Rightarrow> rag \<Rightarrow> filesystem \<Rightarrow> string \<Rightarrow> nat
     \<Rightarrow> py_error + string list \<times> string list" where
  "retrieve_context encode self fs query_text k =
     (case index self of
        Unset \<Rightarrow> Inl AttributeError
      | PyNone \<Rightarrow> Inr ([], [])
      | IndexFlatL2 rows \<Rightarrow>
          let indices = search rows (encode query_text) k
          in case comprehension (subscript (documents self)) indices of
               Inl e \<Rightarrow> Inl e
             | Inr retrieved_chunks \<Rightarrow>
                 (case txt_filenames fs of
                    Inl e \<Rightarrow> Inl e
                  | Inr source_filenames \<Rightarrow>
                      (case comprehension (subscript source_filenames)
                              (filter (\<lambda>i. i < int (length source_filenames)) indices) of
                         Inl e \<Rightarrow> Inl e
                       | Inr source_files \<Rightarrow> Inr (retrieved_chunks, source_files))))"

section \<open>Generation with backoff\<close>

text \<open>
  The request body, the remote endpoint and what happens during a call. One pass through
  the \<^verbatim>\<open>try\<close> block of the retry loop has one of four outcomes:
  \<^item> \<open>RequestException\<close>: \<^verbatim>\<open>requests.post\<close> raised a
    \<^verbatim>\<open>requests.exceptions.RequestException\<close> (caught by the loop);
  \<^item> \<open>OtherException\<close>: another exception was raised (it leaves the function);
  \<^item> \<open>Response status body\<close>: a response arrived whose body is the JSON value \<open>body\<close>;
  \<^item> \<open>NotJson status\<close>: a response arrived whose body is not JSON. For status 200 the
    call \<^verbatim>\<open>response.json()\<close> of line 110, inside the \<^verbatim>\<open>try\<close>, then raises the library's
    \<^verbatim>\<open>JSONDecodeError\<close>, which is a \<^verbatim>\<open>RequestException\<close> and is caught at line 115; for any
    other status the body is not read.
  The endpoint maps the request and the number of the attempt to that outcome. The event
  list records the requests sent and the sleeps, in order.
\<close>

record payload =
  systemInstruction :: string
  contents :: string

datatype outcome = RequestException | OtherException | Response int json | NotJson int

datatype event = Post payload | Sleep int

fun backoff_loop ::
  "(payload \<Rightarrow> nat \<Rightarrow> outcome) \<Rightarrow> payload \<Rightarrow> nat \<Rightarrow> nat \<Rightarrow> int \<Rightarrow> event list
     \<Rightarrow> (py_error + json) \<times> event list" where
  "backoff_loop endpoint p 0 i delay log = (Inr JNull, log)"
| "backoff_loop endpoint p (Suc n) i delay log =
     (case endpoint p i of
        OtherException \<Rightarrow> (Inl OtherError, log @ [Post p])
      | Response status body \<Rightarrow>
          if status = 200 then (Inr body, log @ [Post p])
          else if delay < 0 then (Inl ValueError, log @ [Post p])
          else backoff_loop endpoint p n (Suc i) (delay * 2) (log @ [Post p, Sleep delay])
      | NotJson status \<Rightarrow>
          if delay < 0 then (Inl ValueError, log @ [Post p])
          else backoff_loop endpoint p n (Suc i) (delay * 2) (log @ [Post p, Sleep delay])
      | RequestException \<Rightarrow>
          if delay < 0 then (Inl ValueError, log @ [Post p])
          else backoff_loop endpoint p n (Suc i) (delay * 2) (log @ [Post p, Sleep delay]))"

definition call_gemini_with_backoff ::
  "(payload \<Rightarrow> nat \<Rightarrow> outcome) \<Rightarrow> payload \<Rightarrow> nat \<Rightarrow> int \<Rightarrow> (py_error + json) \<times> event list" where
  "call_gemini_with_backoff endpoint p retries delay = backoff_loop endpoint p retries 0 delay []"

section \<open>The query\<close>

definition no_info_answer :: string where
  "no_info_answer = ''I'm sorry, I could not find any relevant information.''"

definition invalid_answer :: string where
  "invalid_answer = ''I'm sorry, I received an invalid response from the AI model.''"

definition error_answer :: string where
  "error_answer = ''I'm sorry, I encountered an error while generating a response.''"

definition system_prompt :: string where
  "system_prompt =
     ''You are a helpful and professional IT Service Desk assistant.'' @
     ''You must answer the user's question *only* using the context provided.'' @
     ''Do not make up information or answer questions not found in the context.'' @
     ''If the context does not contain the answer, you MUST say:'' @
     [CHR 0x27] @
     ''I'm sorry, my knowledge base does not have the information to answer this question. '' @
     ''Please contact a human IT support agent.'' @
     [CHR 0x27]"

fun join :: "string \<Rightarrow> string list \<Rightarrow> string" where
  "join sep [] = []"
| "join sep [x] = x"
| "join sep (x # y # ys) = x @ sep @ join sep (y # ys)"

definition newline :: string where
  "newline = [CHR 0x0A]"

definition user_prompt :: "string \<Rightarrow> string \<Rightarrow> string" where
  "user_prompt context_str user_question =
     newline @
     ''        CONTEXT:'' @ newline @
     ''        ---'' @ newline @
     ''        '' @ context_str @ newline @
     ''        ---'' @ newline @
     newline @
     ''        USER QUESTION:'' @ newline @
     ''        '' @ user_question @ newline @
     ''        ''"

definition build_payload :: "string list \<Rightarrow> string \<Rightarrow> payload" where
  "build_payload context_chunks user_question =
     (let context_str = join (newline @ newline @ ''---'' @ newline @ newline) context_chunks
      in \<lparr>systemInstruction = system_prompt,
          contents = user_prompt context_str user_question\<rparr>)"

text \<open>The test \<^verbatim>\<open>response and response.get("candidates")\<close>: only a dict has \<^verbatim>\<open>get\<close>.\<close>

definition has_candidates :: "json \<Rightarrow> py_error + bool" where
  "has_candidates response =
     (if \<not> truthy response then Inr False
      else case response of
             JObj kvs \<Rightarrow>
               (case map_of kvs ''candidates'' of None \<Rightarrow> Inr False | Some c \<Rightarrow> Inr (truthy c))
           | _ \<Rightarrow> Inl AttributeError)"

text \<open>\<^verbatim>\<open>response["candidates"][0]["content"]["parts"][0]["text"]\<close>\<close>

definition candidate_text :: "json \<Rightarrow> py_error + json" where
  "candidate_text response =
     (case item response ''candidates'' of Inl e \<Rightarrow> Inl e | Inr cands \<Rightarrow>
      case item0 cands of Inl e \<Rightarrow> Inl e | Inr cand \<Rightarrow>
      case item cand ''content'' of Inl e \<Rightarrow> Inl e | Inr content \<Rightarrow>
      case item content ''parts'' of Inl e \<Rightarrow> Inl e | Inr parts \<Rightarrow>
      case item0 parts of Inl e \<Rightarrow> Inl e | Inr part \<Rightarrow>
      item part ''text'')"

text \<open>The body of the \<^verbatim>\<open>try\<close> block of \<^verbatim>\<open>query\<close>, with the exceptions it can raise.\<close>

definition try_block ::
  "(payload \<Rightarrow> nat \<Rightarrow> outcome) \<Rightarrow> payload \<Rightarrow> string list
     \<Rightarrow> (py_error + json \<times> string list) \<times> event list" where
  "try_block endpoint p source_files =
     (case call_gemini_with_backoff endpoint p 5 2 of
        (Inl e, log) \<Rightarrow> (Inl e, log)
      | (Inr response, log) \<Rightarrow>
          (case has_candidates response of
             Inl e \<Rightarrow> (Inl e, log)
           | Inr True \<Rightarrow>
               (case candidate_text response of
                  Inl e \<Rightarrow> (Inl e, log)
                | Inr answer \<Rightarrow> (Inr (answer, source_files), log))
           | Inr False \<Rightarrow> (Inr (JStr invalid_answer, []), log)))"

text \<open>The block with its handler \<^verbatim>\<open>except Exception\<close>: every exception raised inside
  becomes the canned error answer.\<close>

definition generate ::
  "(payload \<Rightarrow> nat \<Rightarrow> outcome) \<Rightarrow> payload \<Rightarrow> string list
     \<Rightarrow> (json \<times> string list) \<times> event list" where
  "generate endpoint p source_files =
     (case try_block endpoint p source_files of
        (Inl e, log) \<Rightarrow> ((JStr error_answer, []), log)
      | (Inr result, log) \<Rightarrow> (result, log))"

text \<open>\<^verbatim>\<open>ServiceDeskRAG.query\<close>: the result, or the exception that leaves it, with the
  requests and sleeps of the call.\<close>

definition query ::
  "(string \<Rightarrow> int list) \<Rightarrow> rag \<Rightarrow> filesystem \<Rightarrow> (payload \<Rightarrow> nat \<Rightarrow> outcome) \<Rightarrow> string
     \<Rightarrow> (py_error + json \<times> string list) \<times> event list" where
  "query encode self fs endpoint user_question =
     (case retrieve_context encode self fs user_question 1 of
        Inl e \<Rightarrow> (Inl e, [])
      | Inr (context_chunks, source_files) \<Rightarrow>
          if context_chunks = [] then (Inr (JStr no_info_answer, []), [])
          else
            (case generate endpoint (build_payload context_chunks user_question) source_files of
               (result, log) \<Rightarrow> (Inr result, log)))"

section \<open>Notions used to state the properties\<close>

text \<open>The outcomes after which the retry loop sleeps and tries again: an exception of the
  transport, a response whose body is not JSON, or a response whose status is not 200.\<close>

fun retryable :: "outcome \<Rightarrow> bool" where
  "retryable RequestException = True"
| "retryable (NotJson status) = True"
| "retryable (Response status body) = (status \<noteq> 200)"
| "retryable OtherException = False"

text \<open>The position that Python reads for the index \<open>i\<close> in a list of length \<open>n\<close>.\<close>

definition position :: "nat \<Rightarrow> int \<Rightarrow> nat" where
  "position n i = (if 0 \<le> i then nat i else nat (int n + i))"

text \<open>The events of \<open>n\<close> failed attempts with initial delay \<open>d\<close>: attempt, sleep \<open>d\<close>,
  attempt, sleep \<open>2d\<close>, attempt, sleep \<open>4d\<close>, ...\<close>

fun backoff_trace :: "payload \<Rightarrow> int \<Rightarrow> nat \<Rightarrow> event list" where
  "backoff_trace p d 0 = []"
| "backoff_trace p d (Suc n) = Post p # Sleep d # backoff_trace p (d * 2) n"

fun is_post :: "event \<Rightarrow> bool" where
  "is_post (Post p) = True"
| "is_post (Sleep d) = False"

definition attempts :: "event list \<Rightarrow> nat" where
  "attempts log = length (filter is_post log)"

section \<open>Example inputs\<close>

text \<open>An embedding model for the examples: one coordinate, the length of the text.\<close>

definition length_encode :: "string \<Rightarrow> int list" where
  "length_encode s = [int (length s)]"

definition empty_corpus :: filesystem where
  "empty_corpus =
     \<lparr>kb_listing = Some [], kb_read = (\<lambda>f. None),
      vector_store_file = None, documents_file = None\<rparr>"

definition one_file_corpus :: filesystem where
  "one_file_corpus =
     \<lparr>kb_listing = Some [''a.txt''], kb_read = map_of [(''a.txt'', ''aa'')],
      vector_store_file = None, documents_file = None\<rparr>"

definition two_file_corpus :: filesystem where
  "two_file_corpus =
     \<lparr>kb_listing = Some [''b.txt'', ''notes.md'', ''a.txt''],
      kb_read = map_of [(''a.txt'', ''aa''), (''b.txt'', ''bbbb''), (''notes.md'', ''n'')],
      vector_store_file = None, documents_file = None\<rparr>"

text \<open>The pipeline that \<open>init\<close> builds from \<open>two_file_corpus\<close>.\<close>

definition two_file_rag :: rag where
  "two_file_rag = \<lparr>documents = [''aa'', ''bbbb''], index = IndexFlatL2 [[2], [4]]\<rparr>"

definition ok_body :: json where
  "ok_body =
     JObj [(''candidates'',
            JArr [JObj [(''content'', JObj [(''parts'', JArr [JObj [(''text'', JStr ''ok'')]])])]])]"

text \<open>Endpoints: one that fails twice in the transport and then succeeds, one that always
  answers 201 with an empty object, one that is never reachable, one that answers 200
  with an object without candidates, one that answers 200 with a body that is not JSON,
  and one that answers 200 with a candidate that has no content.\<close>

definition fails_twice :: "payload \<Rightarrow> nat \<Rightarrow> outcome" where
  "fails_twice p i = (if i < 2 then RequestException else Response 200 ok_body)"

definition always_201 :: "payload \<Rightarrow> nat \<Rightarrow> outcome" where
  "always_201 p i = Response 201 (JObj [])"

definition always_down :: "payload \<Rightarrow> nat \<Rightarrow> outcome" where
  "always_down p i = RequestException"

definition empty_200 :: "payload \<Rightarrow> nat \<Rightarrow> outcome" where
  "empty_200 p i = Response 200 (JObj [])"

definition garbled_200 :: "payload \<Rightarrow> nat \<Rightarrow> outcome" where
  "garbled_200 p i = NotJson 200"

definition hollow_body :: json where
  "hollow_body = JObj [(''candidates'', JArr [JObj []])]"

definition hollow_200 :: "payload \<Rightarrow> nat \<Rightarrow> outcome" where
  "hollow_200 p i = Response 200 hollow_body"

text \<open>The request of the question \<open>''xxxx''\<close> on the pipeline of \<open>two_file_corpus\<close>.\<close>

definition demo_payload :: payload where
  "demo_payload = build_payload [''bbbb''] ''xxxx''"

text \<open>Persisted artifacts without a knowledge-base directory.\<close>

definition artifacts_only :: filesystem where
  "artifacts_only =
     \<lparr>kb_listing = None, kb_read = (\<lambda>f. None),
      vector_store_file = Some [[2], [4]], documents_file = Some [''aa'', ''bbbb'']\<rparr>"

section \<open>Comprehensions, subscripts and search results\<close>

lemma comprehension_length: "comprehension f xs = Inr ys \<Longrightarrow> length ys = length xs"
  by (induction xs arbitrary: ys) (auto split: sum.splits)

lemma comprehension_map:
  "(\<And>x. x \<in> set xs \<Longrightarrow> f x = Inr (g x)) \<Longrightarrow> comprehension f xs = Inr (map g xs)"
  by (induction xs) auto

lemma comprehension_nth:
  "comprehension f xs = Inr ys \<Longrightarrow> j < length xs \<Longrightarrow> f (xs ! j) = Inr (ys ! j)"
proof (induction xs arbitrary: ys j)
  case Nil
  then show ?case by simp
next
  case (Cons x xs)
  then show ?case by (cases j) (auto split: sum.splits)
qed

lemma length_nearest_rows: "length (nearest_rows rows q) = length rows"
  by (simp add: nearest_rows_def)

lemma set_nearest_rows: "set (nearest_rows rows q) = {0..<length rows}"
  by (simp add: nearest_rows_def)

lemma length_search: "length (search rows q k) = k"
  by (simp add: search_def length_nearest_rows)

lemma search_range:
  assumes "i \<in> set (search rows q k)"
  shows "- 1 \<le> i \<and> i < int (length rows)"
proof -
  from assms consider
      (row) "i \<in> int ` set (take k (nearest_rows rows q))"
    | (pad) "i = - 1 \<and> length rows < k"
    by (auto simp: search_def)
  then show ?thesis
  proof cases
    case row
    then obtain r where r: "r \<in> set (take k (nearest_rows rows q))" and i: "i = int r"
      by blast
    from r have "r \<in> set (nearest_rows rows q)" by (rule in_set_takeD)
    then have "r < length rows" by (simp add: set_nearest_rows)
    with i show ?thesis by simp
  next
    case pad
    then show ?thesis by simp
  qed
qed

lemma search_padding: "length rows < k \<Longrightarrow> - 1 \<in> set (search rows q k)"
  by (simp add: search_def)

lemma search_no_padding:
  assumes "k \<le> length rows" and "i \<in> set (search rows q k)"
  shows "0 \<le> i"
  using assms by (auto simp: search_def)

lemma subscript_in_range:
  assumes "xs \<noteq> []" and "- 1 \<le> i" and "i < int (length xs)"
  shows "subscript xs i = Inr (if i = - 1 then last xs else xs ! nat i)"
proof (cases "i = - 1")
  case True
  from assms(1) have "0 < length xs" by simp
  with True assms(1) show ?thesis
    by (simp add: subscript_def last_conv_nth nat_diff_distrib' int_ops Suc_leI)
next
  case False
  with assms have "0 \<le> i" by simp
  with assms False show ?thesis by (simp add: subscript_def)
qed

lemma backoff_loop_retry:
  "0 \<le> d \<Longrightarrow> m \<le> n \<Longrightarrow> (\<forall>j<m. retryable (endpoint p (i + j))) \<Longrightarrow>
   backoff_loop endpoint p n i d log =
     backoff_loop endpoint p (n - m) (i + m) (d * 2 ^ m) (log @ backoff_trace p d m)"
proof (induction m arbitrary: n i d log)
  case 0
  then show ?case by simp
next
  case (Suc m)
  then obtain n' where n: "n = Suc n'" and mn: "m \<le> n'" by (cases n) auto
  from Suc.prems have r0: "retryable (endpoint p i)" by (metis add.right_neutral zero_less_Suc)
  from Suc.prems have rs: "\<forall>j<m. retryable (endpoint p (Suc i + j))" by auto
  from Suc.prems have d2: "0 \<le> d * 2" by simp
  have step: "backoff_loop endpoint p n i d log =
      backoff_loop endpoint p n' (Suc i) (d * 2) (log @ [Post p, Sleep d])"
    using r0 Suc.prems(1) n by (cases "endpoint p i") auto
  show ?case
    unfolding step using Suc.IH [OF d2 mn rs, of "log @ [Post p, Sleep d]"] n
    by (simp add: mult.assoc)
qed

section \<open>Unfolding the definitions on examples\<close>

lemmas build_defs = init_def build_vector_store_def load_documents_def txt_filenames_def
  sorted_txt_def endswith_def Let_def
lemmas retrieve_defs = retrieve_context_def search_def nearest_rows_def l2sq_def subscript_def
  txt_filenames_def sorted_txt_def endswith_def Let_def

section \<open>Retrieval on an empty corpus\<close>

text \<open>
  Claim C1. With an empty corpus retrieval should return two empty sequences. The
  constructor returns early from the build without ever assigning \<^verbatim>\<open>self.index\<close>, so
  the test \<^verbatim>\<open>self.index is None\<close> raises \<^verbatim>\<open>AttributeError\<close>: for every embedding model,
  query text, \<open>k\<close> and endpoint, retrieval on the pipeline built from the empty knowledge
  base raises, and so does \<open>query\<close>, which calls it outside its \<^verbatim>\<open>try\<close> block.
\<close>

theorem empty_corpus_retrieval_raises:
  "init encode empty_corpus = Inr (\<lparr>documents = [], index = Unset\<rparr>, empty_corpus)
   \<and> retrieve_context encode \<lparr>documents = [], index = Unset\<rparr> empty_corpus q k = Inl AttributeError
   \<and> query encode \<lparr>documents = [], index = Unset\<rparr> empty_corpus endpoint q = (Inl AttributeError, [])"
  by (simp add: build_defs empty_corpus_def retrieve_context_def query_def)

section \<open>Searching for more rows than the index holds\<close>

text \<open>
  Claim C2. Searching with \<open>k\<close> greater than the number of rows should give \<open>min k N\<close>
  hits and no padding. A search always returns \<open>k\<close> labels. On a corpus of one file,
  retrieval with its default \<open>k = 2\<close> receives the labels \<open>[0, -1]\<close>; the label \<open>-1\<close> is
  read as Python's last element, so the document and its file name come back twice.
\<close>

theorem padding_reaches_chunks_and_sources:
  "init length_encode one_file_corpus =
     Inr (\<lparr>documents = [''aa''], index = IndexFlatL2 [[2]]\<rparr>,
          one_file_corpus\<lparr>vector_store_file := Some [[2]], documents_file := Some [''aa'']\<rparr>)
   \<and> length (search rows v k) = k
   \<and> search [[2]] (length_encode ''x'') 2 = [0, - 1]
   \<and> retrieve_context length_encode \<lparr>documents = [''aa''], index = IndexFlatL2 [[2]]\<rparr>
         (one_file_corpus\<lparr>vector_store_file := Some [[2]], documents_file := Some [''aa'']\<rparr>)
         ''x'' 2
       = Inr ([''aa'', ''aa''], [''a.txt'', ''a.txt''])"
  by (simp add: length_search)
     (simp add: build_defs retrieve_defs one_file_corpus_def length_encode_def)

section \<open>The refusal of a query without context\<close>

text \<open>
  Claim C4. When retrieval yields no chunks, \<open>query\<close> returns the fixed sentence with an
  empty source list, and the event list is empty: no request was sent to the endpoint.
\<close>

theorem query_refuses_without_chunks:
  assumes "retrieve_context encode self fs q 1 = Inr ([], srcs)"
  shows "query encode self fs endpoint q =
           (Inr (JStr ''I'm sorry, I could not find any relevant information.'', []), [])"
  using assms by (simp add: query_def no_info_answer_def)

text \<open>A pipeline whose index is \<^verbatim>\<open>None\<close> is such a case.\<close>

theorem query_refuses_without_chunks_witness:
  "retrieve_context length_encode \<lparr>documents = [], index = PyNone\<rparr> empty_corpus ''hello'' 1
     = Inr ([], [])
   \<and> query length_encode \<lparr>documents = [], index = PyNone\<rparr> empty_corpus fails_twice ''hello''
     = (Inr (JStr ''I'm sorry, I could not find any relevant information.'', []), [])"
proof -
  have h: "retrieve_context length_encode \<lparr>documents = [], index = PyNone\<rparr> empty_corpus ''hello'' 1
     = Inr ([], [])"
    by (simp add: retrieve_context_def)
  from query_refuses_without_chunks [OF h] h show ?thesis by simp
qed

section \<open>The shape of a call with backoff\<close>

lemma attempts_append: "attempts (xs @ ys) = attempts xs + attempts ys"
  by (simp add: attempts_def)

lemma attempts_backoff_trace: "attempts (backoff_trace p d n) = n"
  by (induction n arbitrary: d) (simp_all add: attempts_def)

lemma backoff_loop_terminal:
  assumes "\<not> retryable (endpoint p i)"
  shows "backoff_loop endpoint p (Suc n) i d log =
           (case endpoint p i of Response status body \<Rightarrow> Inr body | _ \<Rightarrow> Inl OtherError,
            log @ [Post p])"
  using assms by (cases "endpoint p i") auto

lemma call_exhausted:
  assumes "0 \<le> d" and "\<forall>j<retries. retryable (endpoint p j)"
  shows "call_gemini_with_backoff endpoint p retries d = (Inr JNull, backoff_trace p d retries)"
  using backoff_loop_retry [of d retries retries endpoint p 0 "[]"] assms
  by (simp add: call_gemini_with_backoff_def)

lemma call_stops:
  assumes "0 \<le> d" and "i < retries" and "\<forall>j<i. retryable (endpoint p j)"
    and "\<not> retryable (endpoint p i)"
  shows "call_gemini_with_backoff endpoint p retries d =
           (case endpoint p i of Response status body \<Rightarrow> Inr body | _ \<Rightarrow> Inl OtherError,
            backoff_trace p d i @ [Post p])"
proof -
  from assms(2) obtain n where n: "retries - i = Suc n" by (cases "retries - i") auto
  have "backoff_loop endpoint p retries 0 d [] =
          backoff_loop endpoint p (retries - i) i (d * 2 ^ i) (backoff_trace p d i)"
    using backoff_loop_retry [of d i retries endpoint p 0 "[]"] assms by simp
  also have "\<dots> = (case endpoint p i of Response status body \<Rightarrow> Inr body | _ \<Rightarrow> Inl OtherError,
            backoff_trace p d i @ [Post p])"
    unfolding n using assms(4) by (rule backoff_loop_terminal)
  finally show ?thesis by (simp add: call_gemini_with_backoff_def)
qed

lemma call_shape:
  assumes "0 \<le> d"
  shows "\<exists>f\<le>retries.
           snd (call_gemini_with_backoff endpoint p retries d) =
             backoff_trace p d f @ (if f = retries then [] else [Post p])
         \<and> (\<forall>j<f. retryable (endpoint p j))
         \<and> (f < retries \<longrightarrow> \<not> retryable (endpoint p f))"
proof (cases "\<forall>j<retries. retryable (endpoint p j)")
  case True
  with assms have "snd (call_gemini_with_backoff endpoint p retries d) = backoff_trace p d retries"
    by (simp add: call_exhausted)
  with True show ?thesis by auto
next
  case False
  define f where "f = (LEAST j. \<not> retryable (endpoint p j))"
  from False obtain j0 where j0: "j0 < retries" "\<not> retryable (endpoint p j0)" by blast
  have nf: "\<not> retryable (endpoint p f)"
    unfolding f_def using j0(2) by (rule LeastI)
  have "f \<le> j0" unfolding f_def using j0(2) by (rule Least_le)
  with j0(1) have lt: "f < retries" by simp
  have before: "\<forall>j<f. retryable (endpoint p j)"
    unfolding f_def using not_less_Least by blast
  from call_stops [of d f retries endpoint p] assms lt before nf
  have "snd (call_gemini_with_backoff endpoint p retries d) = backoff_trace p d f @ [Post p]"
    by simp
  with lt before nf show ?thesis by auto
qed

lemma call_200:
  assumes "0 \<le> d" and "i < retries" and "\<forall>j<i. retryable (endpoint p j)"
    and "endpoint p i = Response 200 body"
  shows "call_gemini_with_backoff endpoint p retries d = (Inr body, backoff_trace p d i @ [Post p])"
  using call_stops [of d i retries endpoint p] assms by simp

lemma has_candidates_JNull: "has_candidates JNull = Inr False"
  by (simp add: has_candidates_def)

lemma backoff_trace_2: "backoff_trace p d 2 = [Post p, Sleep d, Post p, Sleep (d * 2)]"
  by (simp add: numeral_2_eq_2)

lemma generate_200:
  assumes "i < 5" and "\<forall>j<i. retryable (endpoint p j)" and "endpoint p i = Response 200 body"
  shows "generate endpoint p srcs =
           (case has_candidates body of
              Inl e \<Rightarrow> (JStr error_answer, [])
            | Inr True \<Rightarrow>
                (case candidate_text body of
                   Inl e \<Rightarrow> (JStr error_answer, [])
                 | Inr answer \<Rightarrow> (answer, srcs))
            | Inr False \<Rightarrow> (JStr invalid_answer, []),
            backoff_trace p 2 i @ [Post p])"
proof -
  have "call_gemini_with_backoff endpoint p 5 2 = (Inr body, backoff_trace p 2 i @ [Post p])"
    using call_200 [of 2 i 5 endpoint p body] assms by simp
  then show ?thesis
    by (simp add: generate_def try_block_def split: sum.splits bool.splits)
qed

section \<open>The retry loop\<close>

text \<open>
  Claim C5. For a delay \<open>d \<ge> 0\<close> the events of a call are \<open>f\<close> rounds of attempt and sleep,
  with the sleeps \<open>d, 2d, 4d, ...\<close>, followed by one last attempt unless all \<open>retries\<close>
  attempts failed; \<open>f\<close> is at most \<open>retries\<close>, every attempt before \<open>f\<close> failed and attempt
  \<open>f\<close>, if made, did not. Against an endpoint that fails twice and then answers 200, the
  call returns that answer after exactly three attempts with the sleeps \<open>d\<close> and \<open>2d\<close>, and
  with the defaults of \<open>query\<close> the text of the first candidate is returned with the
  sources.
\<close>

theorem backoff_state_machine:
  assumes "0 \<le> d"
  shows "(\<exists>f\<le>retries.
            snd (call_gemini_with_backoff endpoint p retries d) =
              backoff_trace p d f @ (if f = retries then [] else [Post p])
          \<and> (\<forall>j<f. retryable (endpoint p j))
          \<and> (f < retries \<longrightarrow> \<not> retryable (endpoint p f)))
       \<and> (3 \<le> retries \<and> retryable (endpoint p 0) \<and> retryable (endpoint p 1)
            \<and> endpoint p 2 = Response 200 body
          \<longrightarrow> call_gemini_with_backoff endpoint p retries d =
                (Inr body, [Post p, Sleep d, Post p, Sleep (d * 2), Post p]))
       \<and> (retryable (endpoint p 0) \<and> retryable (endpoint p 1)
            \<and> endpoint p 2 = Response 200 body
            \<and> has_candidates body = Inr True \<and> candidate_text body = Inr text
          \<longrightarrow> generate endpoint p srcs =
                ((text, srcs), [Post p, Sleep 2, Post p, Sleep 4, Post p]))"
proof (intro conjI impI)
  show "\<exists>f\<le>retries.
            snd (call_gemini_with_backoff endpoint p retries d) =
              backoff_trace p d f @ (if f = retries then [] else [Post p])
          \<and> (\<forall>j<f. retryable (endpoint p j))
          \<and> (f < retries \<longrightarrow> \<not> retryable (endpoint p f))"
    using assms by (rule call_shape)
next
  assume a: "3 \<le> retries \<and> retryable (endpoint p 0) \<and> retryable (endpoint p 1)
            \<and> endpoint p 2 = Response 200 body"
  then have before: "\<forall>j<2. retryable (endpoint p j)"
    by (auto simp: less_Suc_eq numeral_2_eq_2)
  from a have "2 < retries" by simp
  from call_200 [of d 2 retries endpoint p body] assms this before a
  show "call_gemini_with_backoff endpoint p retries d =
                (Inr body, [Post p, Sleep d, Post p, Sleep (d * 2), Post p])"
    by (simp add: backoff_trace_2)
next
  assume a: "retryable (endpoint p 0) \<and> retryable (endpoint p 1)
            \<and> endpoint p 2 = Response 200 body
            \<and> has_candidates body = Inr True \<and> candidate_text body = Inr text"
  then have before: "\<forall>j<2. retryable (endpoint p j)"
    by (auto simp: less_Suc_eq numeral_2_eq_2)
  from generate_200 [of 2 endpoint p body srcs] before a
  show "generate endpoint p srcs = ((text, srcs), [Post p, Sleep 2, Post p, Sleep 4, Post p])"
    by (simp add: backoff_trace_2)
qed

text \<open>The endpoint \<open>fails_twice\<close> with the defaults: three attempts, sleeps 2 and 4.\<close>

theorem backoff_state_machine_witness:
  "(0::int) \<le> 2
   \<and> call_gemini_with_backoff fails_twice demo_payload 5 2 =
       (Inr ok_body,
        [Post demo_payload, Sleep 2, Post demo_payload, Sleep 4, Post demo_payload])
   \<and> generate fails_twice demo_payload [''b.txt''] =
       ((JStr ''ok'', [''b.txt'']),
        [Post demo_payload, Sleep 2, Post demo_payload, Sleep 4, Post demo_payload])
   \<and> attempts [Post demo_payload, Sleep 2, Post demo_payload, Sleep 4, Post demo_payload] = 3"
proof -
  have d: "(0::int) \<le> 2" by simp
  have hc: "has_candidates ok_body = Inr True"
    by (simp add: has_candidates_def ok_body_def)
  have ct: "candidate_text ok_body = Inr (JStr ''ok'')"
    by (simp add: candidate_text_def ok_body_def)
  from backoff_state_machine [OF d, of 5 fails_twice demo_payload ok_body "JStr ''ok''" "[''b.txt'']"]
    hc ct
  show ?thesis by (simp add: fails_twice_def attempts_def)
qed

section \<open>Which attempts are made\<close>

lemma retryable_iff:
  "retryable out \<longleftrightarrow>
     out = RequestException \<or> (\<exists>status. out = NotJson status)
     \<or> (\<exists>status body. out = Response status body \<and> status \<noteq> 200)"
  by (cases out) auto

lemma not_retryable_cases:
  "\<not> retryable out \<longleftrightarrow> out = OtherException \<or> (\<exists>body. out = Response 200 body)"
  by (cases out) auto

lemma first_stop:
  assumes "\<not> (\<forall>j<n::nat. retryable (e j))"
  shows "\<exists>i<n. (\<forall>j<i. retryable (e j)) \<and> \<not> retryable (e i)"
proof -
  define f where "f = (LEAST j. \<not> retryable (e j))"
  from assms obtain j0 where j0: "j0 < n" "\<not> retryable (e j0)" by blast
  have nf: "\<not> retryable (e f)"
    unfolding f_def using LeastI [of "\<lambda>j. \<not> retryable (e j)" j0] j0(2) by simp
  have "f \<le> j0"
    unfolding f_def using Least_le [of "\<lambda>j. \<not> retryable (e j)" j0] j0(2) by simp
  with j0(1) have lt: "f < n" by simp
  have "\<forall>j<f. retryable (e j)"
    unfolding f_def using not_less_Least [of _ "\<lambda>j. \<not> retryable (e j)"] by blast
  with lt nf show ?thesis by blast
qed

lemma attempts_call:
  assumes "0 \<le> d"
  shows "Suc j < attempts (snd (call_gemini_with_backoff endpoint p retries d)) \<longleftrightarrow>
           Suc j < retries \<and> (\<forall>i\<le>j. retryable (endpoint p i))"
proof -
  from call_shape [OF assms, of retries endpoint p]
  obtain f where fr: "f \<le> retries"
     and f: "snd (call_gemini_with_backoff endpoint p retries d) =
              backoff_trace p d f @ (if f = retries then [] else [Post p])"
     and r: "\<forall>j<f. retryable (endpoint p j)"
     and s: "f < retries \<longrightarrow> \<not> retryable (endpoint p f)"
    by blast
  have a: "attempts (snd (call_gemini_with_backoff endpoint p retries d)) =
             (if f = retries then f else Suc f)"
    unfolding f by (simp add: attempts_append attempts_backoff_trace) (simp add: attempts_def)
  show ?thesis
  proof (cases "f = retries")
    case True
    with a r show ?thesis by auto
  next
    case False
    with fr have lt: "f < retries" by simp
    with s have nf: "\<not> retryable (endpoint p f)" by simp
    have "j < f \<longleftrightarrow> Suc j < retries \<and> (\<forall>i\<le>j. retryable (endpoint p i))"
    proof
      assume "j < f"
      with lt r show "Suc j < retries \<and> (\<forall>i\<le>j. retryable (endpoint p i))" by auto
    next
      assume h: "Suc j < retries \<and> (\<forall>i\<le>j. retryable (endpoint p i))"
      show "j < f"
      proof (rule ccontr)
        assume "\<not> j < f"
        then have "f \<le> j" by simp
        with h nf show False by blast
      qed
    qed
    with a False show ?thesis by simp
  qed
qed

section \<open>What is retried\<close>

text \<open>
  Claim C7, as stated, speaks of any 2xx response with a malformed body. The loop tests the
  status for equality with 200, and reads the body inside its \<^verbatim>\<open>try\<close>: an endpoint that
  answers 201 with an object without candidates is tried five times, and so is one that
  answers 200 with a body that is not JSON.
\<close>

theorem retry_after_201_counterexample:
  "always_201 demo_payload 0 = Response 201 (JObj [])
   \<and> has_candidates (JObj []) = Inr False
   \<and> attempts (snd (call_gemini_with_backoff always_201 demo_payload 5 2)) = 5
   \<and> snd (call_gemini_with_backoff always_201 demo_payload 5 2) =
        [Post demo_payload, Sleep 2, Post demo_payload, Sleep 4, Post demo_payload, Sleep 8,
         Post demo_payload, Sleep 16, Post demo_payload, Sleep 32]
   \<and> garbled_200 demo_payload 0 = NotJson 200
   \<and> attempts (snd (call_gemini_with_backoff garbled_200 demo_payload 5 2)) = 5"
  by (simp add: always_201_def garbled_200_def has_candidates_def attempts_def
      call_gemini_with_backoff_def numeral_eq_Suc)

text \<open>
  Claim C7, amended. Attempt \<open>j + 1\<close> is made exactly when it is within the bound and every
  attempt up to \<open>j\<close> failed, where an attempt fails by a transport error, by a body that
  is not JSON or by a status other than 200. Whenever an attempt returns status 200 with a
  body that is JSON, no further attempt is made, and the body decides the result: without
  candidates the canned invalid-response answer, with candidates whose text cannot be read
  the canned error answer, each with no sources; otherwise the text with the sources.
\<close>

theorem only_failures_are_retried:
  assumes "0 \<le> d"
  shows "(\<forall>j. Suc j < attempts (snd (call_gemini_with_backoff endpoint p retries d)) \<longleftrightarrow>
               Suc j < retries \<and> (\<forall>i\<le>j. retryable (endpoint p i)))
       \<and> (\<forall>out. retryable out \<longleftrightarrow>
               out = RequestException \<or> (\<exists>status. out = NotJson status)
               \<or> (\<exists>status body. out = Response status body \<and> status \<noteq> 200))
       \<and> (\<forall>i body. i < retries \<and> (\<forall>j<i. retryable (endpoint p j))
              \<and> endpoint p i = Response 200 body
            \<longrightarrow> call_gemini_with_backoff endpoint p retries d =
                  (Inr body, backoff_trace p d i @ [Post p])
              \<and> attempts (snd (call_gemini_with_backoff endpoint p retries d)) = Suc i)
       \<and> (\<forall>i body. i < 5 \<and> (\<forall>j<i. retryable (endpoint p j))
              \<and> endpoint p i = Response 200 body
            \<longrightarrow> generate endpoint p srcs =
                  (case has_candidates body of
                     Inl e \<Rightarrow> (JStr error_answer, [])
                   | Inr True \<Rightarrow>
                       (case candidate_text body of
                          Inl e \<Rightarrow> (JStr error_answer, [])
                        | Inr answer \<Rightarrow> (answer, srcs))
                   | Inr False \<Rightarrow> (JStr invalid_answer, []),
                   backoff_trace p 2 i @ [Post p]))"
proof (intro conjI allI impI)
  fix j
  show "Suc j < attempts (snd (call_gemini_with_backoff endpoint p retries d)) \<longleftrightarrow>
               Suc j < retries \<and> (\<forall>i\<le>j. retryable (endpoint p i))"
    using assms by (rule attempts_call)
next
  fix out
  show "retryable out \<longleftrightarrow>
               out = RequestException \<or> (\<exists>status. out = NotJson status)
               \<or> (\<exists>status body. out = Response status body \<and> status \<noteq> 200)"
    by (rule retryable_iff)
next
  fix i body
  assume a: "i < retries \<and> (\<forall>j<i. retryable (endpoint p j)) \<and> endpoint p i = Response 200 body"
  from call_200 [of d i retries endpoint p body] assms a
  show c: "call_gemini_with_backoff endpoint p retries d =
                  (Inr body, backoff_trace p d i @ [Post p])"
    by simp
  show "attempts (snd (call_gemini_with_backoff endpoint p retries d)) = Suc i"
    unfolding c by (simp add: attempts_append attempts_backoff_trace) (simp add: attempts_def)
next
  fix i body
  assume a: "i < 5 \<and> (\<forall>j<i. retryable (endpoint p j)) \<and> endpoint p i = Response 200 body"
  from generate_200 [of i endpoint p body srcs] a
  show "generate endpoint p srcs =
                  (case has_candidates body of
                     Inl e \<Rightarrow> (JStr error_answer, [])
                   | Inr True \<Rightarrow>
                       (case candidate_text body of
                          Inl e \<Rightarrow> (JStr error_answer, [])
                        | Inr answer \<Rightarrow> (answer, srcs))
                   | Inr False \<Rightarrow> (JStr invalid_answer, []),
                   backoff_trace p 2 i @ [Post p])"
    by simp
qed

text \<open>First answers 200: an empty object gives one attempt and the invalid-response
  answer, a candidate without content gives the error answer; a body that is not JSON
  is followed by a second attempt.\<close>

theorem only_failures_are_retried_witness:
  "(0::int) \<le> 2
   \<and> empty_200 demo_payload 0 = Response 200 (JObj [])
   \<and> call_gemini_with_backoff empty_200 demo_payload 5 2 = (Inr (JObj []), [Post demo_payload])
   \<and> attempts (snd (call_gemini_with_backoff empty_200 demo_payload 5 2)) = 1
   \<and> generate empty_200 demo_payload [''b.txt''] =
        ((JStr invalid_answer, []), [Post demo_payload])
   \<and> hollow_200 demo_payload 0 = Response 200 hollow_body
   \<and> generate hollow_200 demo_payload [''b.txt''] =
        ((JStr error_answer, []), [Post demo_payload])
   \<and> retryable (garbled_200 demo_payload 0)
   \<and> Suc 0 < attempts (snd (call_gemini_with_backoff garbled_200 demo_payload 5 2))"
proof -
  have d: "(0::int) \<le> 2" by simp
  have e: "empty_200 demo_payload 0 = Response 200 (JObj [])" by (simp add: empty_200_def)
  have h: "hollow_200 demo_payload 0 = Response 200 hollow_body" by (simp add: hollow_200_def)
  have g: "retryable (garbled_200 demo_payload 0)" by (simp add: garbled_200_def)
  note t1 = only_failures_are_retried [OF d, of empty_200 demo_payload 5 "[''b.txt'']"]
  note t2 = only_failures_are_retried [OF d, of hollow_200 demo_payload 5 "[''b.txt'']"]
  note t3 = only_failures_are_retried [OF d, of garbled_200 demo_payload 5 "[''b.txt'']"]
  from t1 have c1: "i < 5 \<and> (\<forall>j<i. retryable (empty_200 demo_payload j))
              \<and> empty_200 demo_payload i = Response 200 body
            \<longrightarrow> call_gemini_with_backoff empty_200 demo_payload 5 2 =
                  (Inr body, backoff_trace demo_payload 2 i @ [Post demo_payload])
              \<and> attempts (snd (call_gemini_with_backoff empty_200 demo_payload 5 2)) = Suc i"
    for i body by blast
  from t1 have g1: "i < 5 \<and> (\<forall>j<i. retryable (empty_200 demo_payload j))
              \<and> empty_200 demo_payload i = Response 200 body
            \<longrightarrow> generate empty_200 demo_payload [''b.txt''] =
                  (case has_candidates body of
                     Inl e \<Rightarrow> (JStr error_answer, [])
                   | Inr True \<Rightarrow>
                       (case candidate_text body of
                          Inl e \<Rightarrow> (JStr error_answer, [])
                        | Inr answer \<Rightarrow> (answer, [''b.txt'']))
                   | Inr False \<Rightarrow> (JStr invalid_answer, []),
                   backoff_trace demo_payload 2 i @ [Post demo_payload])"
    for i body by blast
  from t2 have g2: "i < 5 \<and> (\<forall>j<i. retryable (hollow_200 demo_payload j))
              \<and> hollow_200 demo_payload i = Response 200 body
            \<longrightarrow> generate hollow_200 demo_payload [''b.txt''] =
                  (case has_candidates body of
                     Inl e \<Rightarrow> (JStr error_answer, [])
                   | Inr True \<Rightarrow>
                       (case candidate_text body of
                          Inl e \<Rightarrow> (JStr error_answer, [])
                        | Inr answer \<Rightarrow> (answer, [''b.txt'']))
                   | Inr False \<Rightarrow> (JStr invalid_answer, []),
                   backoff_trace demo_payload 2 i @ [Post demo_payload])"
    for i body by blast
  from t3 have a3: "Suc j < attempts (snd (call_gemini_with_backoff garbled_200 demo_payload 5 2)) \<longleftrightarrow>
               Suc j < 5 \<and> (\<forall>i\<le>j. retryable (garbled_200 demo_payload i))"
    for j by blast
  have r1: "call_gemini_with_backoff empty_200 demo_payload 5 2 = (Inr (JObj []), [Post demo_payload])
      \<and> attempts (snd (call_gemini_with_backoff empty_200 demo_payload 5 2)) = 1"
    using c1 [of 0 "JObj []"] e by (simp add: attempts_def)
  have r2: "generate empty_200 demo_payload [''b.txt''] =
        ((JStr invalid_answer, []), [Post demo_payload])"
    using g1 [of 0 "JObj []"] e by (simp add: has_candidates_def)
  have r3: "generate hollow_200 demo_payload [''b.txt''] =
        ((JStr error_answer, []), [Post demo_payload])"
    using g2 [of 0 hollow_body] h
    by (simp add: has_candidates_def candidate_text_def hollow_body_def)
  have r4: "Suc 0 < attempts (snd (call_gemini_with_backoff garbled_200 demo_payload 5 2))"
    using a3 [of 0] by (simp add: garbled_200_def)
  from d e h g r1 r2 r3 r4 show ?thesis by blast
qed

section \<open>The result of the generation block\<close>

lemma query_with_chunks:
  assumes "retrieve_context encode self fs q 1 = Inr (chunks, srcs)" and "chunks \<noteq> []"
  shows "query encode self fs endpoint q =
           (Inr (fst (generate endpoint (build_payload chunks q) srcs)),
            snd (generate endpoint (build_payload chunks q) srcs))"
  using assms by (simp add: query_def split: prod.splits)

lemma generate_exhausted:
  assumes "\<forall>j<5. retryable (endpoint p j)"
  shows "generate endpoint p srcs = ((JStr invalid_answer, []), backoff_trace p 2 5)"
proof -
  have "call_gemini_with_backoff endpoint p 5 2 = (Inr JNull, backoff_trace p 2 5)"
    using call_exhausted [of 2 5 endpoint p] assms by simp
  then show ?thesis
    by (simp add: generate_def try_block_def has_candidates_JNull)
qed

lemma generate_other_exception_at:
  assumes "i < 5" and "\<forall>j<i. retryable (endpoint p j)" and "endpoint p i = OtherException"
  shows "generate endpoint p srcs = ((JStr error_answer, []), backoff_trace p 2 i @ [Post p])"
proof -
  have "call_gemini_with_backoff endpoint p 5 2 = (Inl OtherError, backoff_trace p 2 i @ [Post p])"
    using call_stops [of 2 i 5 endpoint p] assms by simp
  then show ?thesis
    by (simp add: generate_def try_block_def)
qed

lemma generate_cases:
  assumes "call_gemini_with_backoff endpoint p 5 2 = (r, log)"
  shows "generate endpoint p srcs = ((JStr invalid_answer, []), log)
       \<or> generate endpoint p srcs = ((JStr error_answer, []), log)
       \<or> (\<exists>body answer. r = Inr body \<and> has_candidates body = Inr True
             \<and> candidate_text body = Inr answer
             \<and> generate endpoint p srcs = ((answer, srcs), log))"
  using assms
  by (cases r; cases "has_candidates (projr r)"; cases "candidate_text (projr r)")
     (auto simp: generate_def try_block_def split: sum.splits bool.splits)

lemma two_file_retrieval:
  "retrieve_context length_encode two_file_rag two_file_corpus ''xxxx'' 1
     = Inr ([''bbbb''], [''b.txt''])"
  by (simp add: retrieve_defs two_file_corpus_def two_file_rag_def length_encode_def)

section \<open>Exceptions and the caller of the query\<close>

text \<open>
  Claim C6, as stated, says that \<open>query\<close> never raises. Retrieval runs before the
  \<^verbatim>\<open>try\<close> block: with the two persisted artifacts present and no knowledge-base directory,
  the constructor loads the pipeline, and the listing of the directory during retrieval
  raises out of \<open>query\<close>, whatever the endpoint does.
\<close>

theorem query_raises_without_directory_counterexample:
  "init length_encode artifacts_only = Inr (two_file_rag, artifacts_only)
   \<and> query length_encode two_file_rag artifacts_only fails_twice ''xxxx'' = (Inl OSError, [])"
  by (simp add: build_defs retrieve_defs artifacts_only_def two_file_rag_def length_encode_def
      query_def)

text \<open>
  Claim C6, amended. Whenever retrieval returns, \<open>query\<close> returns an answer with sources
  for every behaviour of the endpoint, and the result is fixed in each case: without chunks
  the refusal; after five failed attempts the canned invalid-response answer; after an
  attempt that raises another exception the canned error answer; after an attempt that
  returns 200 with a JSON body, the invalid-response answer if the body has no candidates,
  the error answer if reading the text of the first candidate raises, and otherwise that
  text with the retrieved sources. Every endpoint falls under one of these cases, and
  every canned answer comes with an empty source list.
\<close>

theorem query_absorbs_generation_failures:
  assumes "retrieve_context encode self fs q 1 = Inr (chunks, srcs)"
  shows "(\<exists>answer sources log. query encode self fs endpoint q = (Inr (answer, sources), log))
       \<and> (chunks = [] \<longrightarrow> query encode self fs endpoint q = (Inr (JStr no_info_answer, []), []))
       \<and> (chunks \<noteq> [] \<and> (\<forall>j<5. retryable (endpoint (build_payload chunks q) j))
          \<longrightarrow> query encode self fs endpoint q =
                (Inr (JStr invalid_answer, []), backoff_trace (build_payload chunks q) 2 5))
       \<and> (\<forall>i. chunks \<noteq> [] \<and> i < 5 \<and> (\<forall>j<i. retryable (endpoint (build_payload chunks q) j))
              \<and> endpoint (build_payload chunks q) i = OtherException
          \<longrightarrow> query encode self fs endpoint q =
                (Inr (JStr error_answer, []),
                 backoff_trace (build_payload chunks q) 2 i @ [Post (build_payload chunks q)]))
       \<and> (\<forall>i body. chunks \<noteq> [] \<and> i < 5
              \<and> (\<forall>j<i. retryable (endpoint (build_payload chunks q) j))
              \<and> endpoint (build_payload chunks q) i = Response 200 body
          \<longrightarrow> query encode self fs endpoint q =
                (Inr (case has_candidates body of
                        Inl e \<Rightarrow> (JStr error_answer, [])
                      | Inr True \<Rightarrow>
                          (case candidate_text body of
                             Inl e \<Rightarrow> (JStr error_answer, [])
                           | Inr answer \<Rightarrow> (answer, srcs))
                      | Inr False \<Rightarrow> (JStr invalid_answer, [])),
                 backoff_trace (build_payload chunks q) 2 i @ [Post (build_payload chunks q)]))
       \<and> ((\<forall>j<5. retryable (endpoint (build_payload chunks q) j))
          \<or> (\<exists>i<5. (\<forall>j<i. retryable (endpoint (build_payload chunks q) j))
                \<and> (endpoint (build_payload chunks q) i = OtherException
                    \<or> (\<exists>body. endpoint (build_payload chunks q) i = Response 200 body))))
       \<and> (fst (query encode self fs endpoint q) = Inr (JStr no_info_answer, [])
          \<or> fst (query encode self fs endpoint q) = Inr (JStr invalid_answer, [])
          \<or> fst (query encode self fs endpoint q) = Inr (JStr error_answer, [])
          \<or> (\<exists>body answer.
                fst (call_gemini_with_backoff endpoint (build_payload chunks q) 5 2) = Inr body
              \<and> has_candidates body = Inr True \<and> candidate_text body = Inr answer
              \<and> fst (query encode self fs endpoint q) = Inr (answer, srcs)))"
proof -
  let ?p = "build_payload chunks q"
  have ex: "\<exists>answer sources log. query encode self fs endpoint q = (Inr (answer, sources), log)"
    using assms by (auto simp: query_def split: prod.splits)
  have none: "query encode self fs endpoint q = (Inr (JStr no_info_answer, []), [])"
    if "chunks = []"
    using assms that by (simp add: query_def)
  have down: "query encode self fs endpoint q =
                (Inr (JStr invalid_answer, []), backoff_trace ?p 2 5)"
    if "chunks \<noteq> [] \<and> (\<forall>j<5. retryable (endpoint ?p j))"
    using that query_with_chunks [OF assms, of endpoint] generate_exhausted [of endpoint ?p srcs]
    by simp
  have other: "query encode self fs endpoint q =
                (Inr (JStr error_answer, []), backoff_trace ?p 2 i @ [Post ?p])"
    if "chunks \<noteq> [] \<and> i < 5 \<and> (\<forall>j<i. retryable (endpoint ?p j))
              \<and> endpoint ?p i = OtherException" for i
    using that query_with_chunks [OF assms, of endpoint]
      generate_other_exception_at [of i endpoint ?p srcs]
    by simp
  have ok: "query encode self fs endpoint q =
                (Inr (case has_candidates body of
                        Inl e \<Rightarrow> (JStr error_answer, [])
                      | Inr True \<Rightarrow>
                          (case candidate_text body of
                             Inl e \<Rightarrow> (JStr error_answer, [])
                           | Inr answer \<Rightarrow> (answer, srcs))
                      | Inr False \<Rightarrow> (JStr invalid_answer, [])),
                 backoff_trace ?p 2 i @ [Post ?p])"
    if "chunks \<noteq> [] \<and> i < 5 \<and> (\<forall>j<i. retryable (endpoint ?p j))
              \<and> endpoint ?p i = Response 200 body" for i body
    using that query_with_chunks [OF assms, of endpoint]
      generate_200 [of i endpoint ?p body srcs]
    by simp
  have all: "(\<forall>j<5. retryable (endpoint ?p j))
          \<or> (\<exists>i<5. (\<forall>j<i. retryable (endpoint ?p j))
                \<and> (endpoint ?p i = OtherException
                    \<or> (\<exists>body. endpoint ?p i = Response 200 body)))"
  proof (cases "\<forall>j<5. retryable (endpoint ?p j)")
    case True
    then show ?thesis by blast
  next
    case False
    from first_stop [OF False] obtain i where i: "i < 5"
      and before: "\<forall>j<i. retryable (endpoint ?p j)" and stop: "\<not> retryable (endpoint ?p i)"
      by blast
    from stop have "endpoint ?p i = OtherException \<or> (\<exists>body. endpoint ?p i = Response 200 body)"
      by (simp add: not_retryable_cases)
    with i before show ?thesis by blast
  qed
  have deg: "fst (query encode self fs endpoint q) = Inr (JStr no_info_answer, [])
          \<or> fst (query encode self fs endpoint q) = Inr (JStr invalid_answer, [])
          \<or> fst (query encode self fs endpoint q) = Inr (JStr error_answer, [])
          \<or> (\<exists>body answer.
                fst (call_gemini_with_backoff endpoint ?p 5 2) = Inr body
              \<and> has_candidates body = Inr True \<and> candidate_text body = Inr answer
              \<and> fst (query encode self fs endpoint q) = Inr (answer, srcs))"
  proof (cases "chunks = []")
    case True
    with none show ?thesis by simp
  next
    case False
    obtain r log where c: "call_gemini_with_backoff endpoint ?p 5 2 = (r, log)"
      by (cases "call_gemini_with_backoff endpoint ?p 5 2")
    from generate_cases [OF c, of srcs] query_with_chunks [OF assms False, of endpoint] c
    show ?thesis by auto
  qed
  from ex none down other ok all deg show ?thesis by blast
qed

text \<open>An endpoint that is never reachable: five attempts, then the invalid-response
  answer. An endpoint whose candidate has no content: the error answer, without the
  retrieved source.\<close>

theorem query_absorbs_generation_failures_witness:
  "retrieve_context length_encode two_file_rag two_file_corpus ''xxxx'' 1
     = Inr ([''bbbb''], [''b.txt''])
   \<and> query length_encode two_file_rag two_file_corpus always_down ''xxxx'' =
       (Inr (JStr invalid_answer, []), backoff_trace demo_payload 2 5)
   \<and> hollow_200 demo_payload 0 = Response 200 hollow_body
   \<and> query length_encode two_file_rag two_file_corpus hollow_200 ''xxxx'' =
       (Inr (JStr error_answer, []), [Post demo_payload])"
proof -
  note t1 = query_absorbs_generation_failures [OF two_file_retrieval, of always_down]
  note t2 = query_absorbs_generation_failures [OF two_file_retrieval, of hollow_200]
  from t1
  have "[''bbbb''] \<noteq> [] \<and> (\<forall>j<5. retryable (always_down (build_payload [''bbbb''] ''xxxx'') j))
          \<longrightarrow> query length_encode two_file_rag two_file_corpus always_down ''xxxx'' =
                (Inr (JStr invalid_answer, []), backoff_trace (build_payload [''bbbb''] ''xxxx'') 2 5)"
    by blast
  then have r1: "query length_encode two_file_rag two_file_corpus always_down ''xxxx'' =
       (Inr (JStr invalid_answer, []), backoff_trace demo_payload 2 5)"
    by (simp add: always_down_def demo_payload_def)
  from t2
  have "[''bbbb''] \<noteq> [] \<and> i < 5
              \<and> (\<forall>j<i. retryable (hollow_200 (build_payload [''bbbb''] ''xxxx'') j))
              \<and> hollow_200 (build_payload [''bbbb''] ''xxxx'') i = Response 200 body
          \<longrightarrow> query length_encode two_file_rag two_file_corpus hollow_200 ''xxxx'' =
                (Inr (case has_candidates body of
                        Inl e \<Rightarrow> (JStr error_answer, [])
                      | Inr True \<Rightarrow>
                          (case candidate_text body of
                             Inl e \<Rightarrow> (JStr error_answer, [])
                           | Inr answer \<Rightarrow> (answer, [''b.txt'']))
                      | Inr False \<Rightarrow> (JStr invalid_answer, [])),
                 backoff_trace (build_payload [''bbbb''] ''xxxx'') 2 i
                   @ [Post (build_payload [''bbbb''] ''xxxx'')])"
    for i body by blast
  from this [of 0 hollow_body]
  have r2: "query length_encode two_file_rag two_file_corpus hollow_200 ''xxxx'' =
       (Inr (JStr error_answer, []), [Post demo_payload])"
    by (simp add: hollow_200_def has_candidates_def candidate_text_def hollow_body_def
        demo_payload_def)
  have h: "hollow_200 demo_payload 0 = Response 200 hollow_body" by (simp add: hollow_200_def)
  from two_file_retrieval r1 r2 h show ?thesis by blast
qed

section \<open>Sources of a failed generation\<close>

text \<open>
  Claim C9. Let retrieval return chunks and sources, and let the call with backoff return
  \<open>r\<close>. If the retries were exhausted (\<open>r\<close> is \<^verbatim>\<open>None\<close>) or the body lacks candidates, \<open>query\<close>
  returns the canned answer with an empty source list, so the retrieved sources are dropped.
  A non-empty source list is returned only as the retrieved one, next to the text of the
  first candidate of a body that has candidates; every other outcome of the call gives one
  of the two canned answers with no sources.
\<close>

theorem sources_only_with_successful_generation:
  assumes "retrieve_context encode self fs q 1 = Inr (chunks, srcs)" and "chunks \<noteq> []"
    and "call_gemini_with_backoff endpoint (build_payload chunks q) 5 2 = (r, log)"
  shows "(r = Inr JNull \<longrightarrow>
            query encode self fs endpoint q = (Inr (JStr invalid_answer, []), log))
       \<and> (\<forall>body. r = Inr body \<and> has_candidates body = Inr False \<longrightarrow>
            query encode self fs endpoint q = (Inr (JStr invalid_answer, []), log))
       \<and> (\<forall>answer sources.
            fst (query encode self fs endpoint q) = Inr (answer, sources) \<and> sources \<noteq> [] \<longrightarrow>
            sources = srcs
            \<and> (\<exists>body. r = Inr body \<and> has_candidates body = Inr True
                  \<and> candidate_text body = Inr answer))
       \<and> (query encode self fs endpoint q = (Inr (JStr invalid_answer, []), log)
          \<or> query encode self fs endpoint q = (Inr (JStr error_answer, []), log)
          \<or> (\<exists>body answer. r = Inr body \<and> has_candidates body = Inr True
                \<and> candidate_text body = Inr answer
                \<and> query encode self fs endpoint q = (Inr (answer, srcs), log)))"
proof -
  note q = query_with_chunks [OF assms(1,2), of endpoint]
  have lack: "query encode self fs endpoint q = (Inr (JStr invalid_answer, []), log)"
    if "r = Inr body" and "has_candidates body = Inr False" for body
    using that assms(3) q by (simp add: generate_def try_block_def)
  have succ: "sources = srcs \<and> (\<exists>body. r = Inr body \<and> has_candidates body = Inr True
                  \<and> candidate_text body = Inr answer)"
    if "fst (query encode self fs endpoint q) = Inr (answer, sources)" and "sources \<noteq> []"
    for answer sources
    using generate_cases [OF assms(3), of srcs] that q by auto
  have cases: "query encode self fs endpoint q = (Inr (JStr invalid_answer, []), log)
          \<or> query encode self fs endpoint q = (Inr (JStr error_answer, []), log)
          \<or> (\<exists>body answer. r = Inr body \<and> has_candidates body = Inr True
                \<and> candidate_text body = Inr answer
                \<and> query encode self fs endpoint q = (Inr (answer, srcs), log))"
    using generate_cases [OF assms(3), of srcs] q by auto
  from lack [of JNull] lack succ cases show ?thesis
    by (simp add: has_candidates_JNull)
qed

text \<open>Retrieval found \<open>b.txt\<close>; the endpoint answers 200 without candidates; no source is
  returned.\<close>

theorem sources_only_with_successful_generation_witness:
  "retrieve_context length_encode two_file_rag two_file_corpus ''xxxx'' 1
     = Inr ([''bbbb''], [''b.txt''])
   \<and> [''bbbb''] \<noteq> ([] :: string list)
   \<and> call_gemini_with_backoff empty_200 (build_payload [''bbbb''] ''xxxx'') 5 2
       = (Inr (JObj []), [Post (build_payload [''bbbb''] ''xxxx'')])
   \<and> has_candidates (JObj []) = Inr False
   \<and> query length_encode two_file_rag two_file_corpus empty_200 ''xxxx'' =
       (Inr (JStr invalid_answer, []), [Post (build_payload [''bbbb''] ''xxxx'')])"
proof -
  have ne: "[''bbbb''] \<noteq> ([] :: string list)" by simp
  have c: "call_gemini_with_backoff empty_200 (build_payload [''bbbb''] ''xxxx'') 5 2
       = (Inr (JObj []), [Post (build_payload [''bbbb''] ''xxxx'')])"
    using call_200 [of 2 0 5 empty_200 "build_payload [''bbbb''] ''xxxx''" "JObj []"]
    by (simp add: empty_200_def)
  have h: "has_candidates (JObj []) = Inr False" by (simp add: has_candidates_def)
  from sources_only_with_successful_generation [OF two_file_retrieval ne c]
  have "\<forall>body. Inr (JObj []) = (Inr body :: py_error + json) \<and> has_candidates body = Inr False \<longrightarrow>
            query length_encode two_file_rag two_file_corpus empty_200 ''xxxx'' =
              (Inr (JStr invalid_answer, []), [Post (build_payload [''bbbb''] ''xxxx'')])"
    by blast
  with h have "query length_encode two_file_rag two_file_corpus empty_200 ''xxxx'' =
              (Inr (JStr invalid_answer, []), [Post (build_payload [''bbbb''] ''xxxx'')])"
    by simp
  with two_file_retrieval ne c h show ?thesis by simp
qed

section \<open>What retrieval reads and returns\<close>

lemma length_filter_eq: "(length (filter P xs) = length xs) = (\<forall>x\<in>set xs. P x)"
proof (induction xs)
  case Nil
  then show ?case by simp
next
  case (Cons x xs)
  have le: "length (filter P xs) \<le> length xs" by (rule length_filter_le)
  show ?case
  proof (cases "P x")
    case True
    with Cons show ?thesis by simp
  next
    case False
    from le have "length (filter P xs) \<noteq> Suc (length xs)" by linarith
    with False show ?thesis by simp
  qed
qed

lemma retrieve_with_index:
  assumes "index self = IndexFlatL2 rows"
  shows "retrieve_context encode self fs q k = Inr (chunks, srcs) \<longleftrightarrow>
           comprehension (subscript (documents self)) (search rows (encode q) k) = Inr chunks
         \<and> (\<exists>names. kb_listing fs = Some names
              \<and> comprehension (subscript (sorted_txt names))
                   (filter (\<lambda>i. i < int (length (sorted_txt names)))
                      (search rows (encode q) k)) = Inr srcs)"
  using assms
  by (auto simp: retrieve_context_def txt_filenames_def Let_def split: sum.splits option.splits)

lemma retrieve_same_listing:
  assumes "kb_listing fs1 = kb_listing fs2"
  shows "retrieve_context encode self fs1 q k = retrieve_context encode self fs2 q k"
proof -
  from assms have same: "txt_filenames fs1 = txt_filenames fs2" by (simp add: txt_filenames_def)
  show ?thesis unfolding retrieve_context_def same ..
qed

lemma subscript_position:
  assumes "xs \<noteq> []" and "- 1 \<le> i" and "i < int (length xs)"
  shows "subscript xs i = Inr (xs ! (if i = - 1 then length xs - 1 else nat i))"
  using subscript_in_range [OF assms] assms(1) by (simp add: last_conv_nth)

lemma build_documents:
  assumes "build_vector_store encode self0 fs = Inr (self, fs')"
    and "documents self \<noteq> []" and "kb_listing fs = Some names"
  shows "index self = IndexFlatL2 (map encode (documents self))"
    and "length (documents self) = length (sorted_txt names)"
    and "\<forall>i<length (documents self).
           kb_read fs (sorted_txt names ! i) = Some (documents self ! i)"
proof -
  let ?read = "\<lambda>filename. case kb_read fs filename of None \<Rightarrow> Inl OSError | Some t \<Rightarrow> Inr t"
  from assms(1,3) obtain docs where
    docs: "comprehension ?read (sorted_txt names) = Inr docs"
    and self: "self = (if docs = [] then self0\<lparr>documents := docs\<rparr>
                else self0\<lparr>documents := docs, index := IndexFlatL2 (map encode docs)\<rparr>)"
    by (auto simp: build_vector_store_def load_documents_def txt_filenames_def Let_def
        split: sum.splits if_splits)
  from self assms(2) have d: "documents self = docs" and ne: "docs \<noteq> []"
    by (auto split: if_splits)
  from self ne d show "index self = IndexFlatL2 (map encode (documents self))" by simp
  from docs d show len: "length (documents self) = length (sorted_txt names)"
    by (simp add: comprehension_length)
  show "\<forall>i<length (documents self).
           kb_read fs (sorted_txt names ! i) = Some (documents self ! i)"
  proof (intro allI impI)
    fix i assume "i < length (documents self)"
    with len have "i < length (sorted_txt names)" by simp
    from comprehension_nth [OF docs this] d
    show "kb_read fs (sorted_txt names ! i) = Some (documents self ! i)"
      by (simp split: option.splits)
  qed
qed

section \<open>The lengths of the two retrieved sequences\<close>

text \<open>
  Claim C8, as stated, says that the chunk list and the source list always have the same
  length. With an index and a document list of two entries loaded from the persisted
  artifacts and a directory that now holds one text file, the row found is 1: its chunk is
  returned and its source is filtered out.
\<close>

theorem shorter_sources_counterexample:
  "init length_encode (artifacts_only\<lparr>kb_listing := Some [''a.txt'']\<rparr>) =
     Inr (two_file_rag, artifacts_only\<lparr>kb_listing := Some [''a.txt'']\<rparr>)
   \<and> retrieve_context length_encode two_file_rag
         (artifacts_only\<lparr>kb_listing := Some [''a.txt'']\<rparr>) ''xxxx'' 1
       = Inr ([''bbbb''], [])"
  by (simp add: build_defs retrieve_defs artifacts_only_def two_file_rag_def length_encode_def)

text \<open>
  Claim C8, amended. When retrieval returns from an index, there are \<open>k\<close> chunks and at most
  as many sources: one source for each label returned by the search that is below the
  number of text files currently listed. The two lengths are equal exactly when every
  label is below that number.
\<close>

theorem sources_never_longer_than_chunks:
  assumes "retrieve_context encode self fs q k = Inr (chunks, srcs)"
    and "index self = IndexFlatL2 rows" and "kb_listing fs = Some names"
  shows "length chunks = k \<and> length srcs \<le> length chunks
       \<and> (length srcs = length chunks \<longleftrightarrow>
            (\<forall>i\<in>set (search rows (encode q) k). i < int (length (sorted_txt names))))
       \<and> length srcs =
           length (filter (\<lambda>i. i < int (length (sorted_txt names))) (search rows (encode q) k))"
proof -
  let ?idx = "search rows (encode q) k"
  let ?P = "\<lambda>i. i < int (length (sorted_txt names))"
  from assms have c: "comprehension (subscript (documents self)) ?idx = Inr chunks"
    and s: "comprehension (subscript (sorted_txt names)) (filter ?P ?idx) = Inr srcs"
    by (auto simp: retrieve_with_index)
  from c have lc: "length chunks = k" by (simp add: comprehension_length length_search)
  from s have ls: "length srcs = length (filter ?P ?idx)" by (simp add: comprehension_length)
  have "length (filter ?P ?idx) \<le> length ?idx" by (rule length_filter_le)
  with ls lc have le: "length srcs \<le> length chunks" by (simp add: length_search)
  have "length srcs = length chunks \<longleftrightarrow> length (filter ?P ?idx) = length ?idx"
    using ls lc by (simp add: length_search)
  also have "\<dots> \<longleftrightarrow> (\<forall>i\<in>set ?idx. ?P i)" by (rule length_filter_eq)
  finally show ?thesis using lc le ls by simp
qed

text \<open>The pipeline of \<open>two_file_corpus\<close> with its directory unchanged: one chunk, one source.\<close>

theorem sources_never_longer_than_chunks_witness:
  "retrieve_context length_encode two_file_rag two_file_corpus ''xxxx'' 1
     = Inr ([''bbbb''], [''b.txt''])
   \<and> index two_file_rag = IndexFlatL2 [[2], [4]]
   \<and> kb_listing two_file_corpus = Some [''b.txt'', ''notes.md'', ''a.txt'']
   \<and> length [''bbbb''] = (1::nat) \<and> length [''b.txt''] = length [''bbbb'']
   \<and> search [[2], [4]] (length_encode ''xxxx'') 1 = [1]
   \<and> length (sorted_txt [''b.txt'', ''notes.md'', ''a.txt'']) = 2"
proof -
  have s: "search [[2], [4]] (length_encode ''xxxx'') 1 = [1]"
    by (simp add: search_def nearest_rows_def l2sq_def length_encode_def)
  have n: "length (sorted_txt [''b.txt'', ''notes.md'', ''a.txt'']) = 2"
    by (simp add: sorted_txt_def endswith_def)
  have i: "index two_file_rag = IndexFlatL2 [[2], [4]]" by (simp add: two_file_rag_def)
  have l: "kb_listing two_file_corpus = Some [''b.txt'', ''notes.md'', ''a.txt'']"
    by (simp add: two_file_corpus_def)
  from sources_never_longer_than_chunks [OF two_file_retrieval i l] two_file_retrieval i l s n
  show ?thesis by simp
qed

section \<open>The names that the labels are given\<close>

lemma subscript_eq: "subscript xs i = Inr x \<Longrightarrow> x = xs ! position (length xs) i"
  by (auto simp: subscript_def position_def split: if_splits)

lemma comprehension_subscript_eq:
  "comprehension (subscript xs) is = Inr ys \<Longrightarrow>
   ys = map (\<lambda>i. xs ! position (length xs) i) is"
proof (induction "is" arbitrary: ys)
  case Nil
  then show ?case by simp
next
  case (Cons i "is")
  then show ?case by (auto split: sum.splits dest: subscript_eq)
qed

lemma endswith_iff: "endswith f suffix \<longleftrightarrow> (\<exists>stem. f = stem @ suffix)"
proof
  assume "endswith f suffix"
  then have "drop (length f - length suffix) f = suffix" by (simp add: endswith_def)
  then have "f = take (length f - length suffix) f @ suffix"
    by (metis append_take_drop_id)
  then show "\<exists>stem. f = stem @ suffix" ..
next
  assume "\<exists>stem. f = stem @ suffix"
  then show "endswith f suffix" by (auto simp: endswith_def)
qed

lemma sorted_txt_eq:
  "sorted_txt names = sort (filter (\<lambda>f. \<exists>stem. f = stem @ ''.txt'') names)"
  by (simp add: sorted_txt_def endswith_iff)

lemma sorted_sorted_txt: "sorted (sorted_txt names)"
  by (simp add: sorted_txt_def)

lemma filter_smaller_eq:
  assumes "\<And>x. P x \<Longrightarrow> Q x" and "length (filter P xs) = length (filter Q xs)"
  shows "filter P xs = filter Q xs"
proof -
  have "filter P (filter Q xs) = filter P xs"
    using assms(1) by (auto simp: filter_filter intro: filter_cong)
  with assms(2) have "length (filter P (filter Q xs)) = length (filter Q xs)" by simp
  then have "\<forall>x\<in>set (filter Q xs). P x" by (simp only: length_filter_eq)
  then have "filter P (filter Q xs) = filter Q xs" by (simp only: filter_id_conv)
  with \<open>filter P (filter Q xs) = filter P xs\<close> show ?thesis by simp
qed

lemma kept_eq:
  fixes n1 n2 :: nat
  assumes "length (filter (\<lambda>i. i < int n1) idx) = length (filter (\<lambda>i. i < int n2) idx)"
  shows "filter (\<lambda>i. i < int n1) idx = filter (\<lambda>i. i < int n2) idx"
proof (cases "n1 \<le> n2")
  case True
  then show ?thesis using assms by (intro filter_smaller_eq) auto
next
  case False
  then have "filter (\<lambda>i. i < int n2) idx = filter (\<lambda>i. i < int n1) idx"
    using assms by (intro filter_smaller_eq) auto
  then show ?thesis by simp
qed

lemma retrieve_formula:
  assumes "retrieve_context encode self fs q k = Inr (chunks, srcs)"
    and "index self = IndexFlatL2 rows" and "kb_listing fs = Some names"
  shows "chunks = map (\<lambda>i. documents self ! position (length (documents self)) i)
                    (search rows (encode q) k)"
    and "srcs = map (\<lambda>i. sorted_txt names ! position (length (sorted_txt names)) i)
                  (filter (\<lambda>i. i < int (length (sorted_txt names)))
                     (search rows (encode q) k))"
  using assms by (auto simp: retrieve_with_index dest: comprehension_subscript_eq)

section \<open>Where the source ids come from\<close>

text \<open>
  Claim C10, as stated, says that two calls with different directory contents return
  different source ids. A file added after the names that the search points at changes the
  directory and not the sources.
\<close>

theorem same_sources_counterexample:
  "retrieve_context length_encode two_file_rag two_file_corpus ''xxxx'' 1
     = Inr ([''bbbb''], [''b.txt''])
   \<and> retrieve_context length_encode two_file_rag
        (two_file_corpus\<lparr>kb_listing := Some [''b.txt'', ''notes.md'', ''a.txt'', ''c.txt'']\<rparr>)
        ''xxxx'' 1
     = Inr ([''bbbb''], [''b.txt''])
   \<and> kb_listing two_file_corpus
       \<noteq> kb_listing
           (two_file_corpus\<lparr>kb_listing := Some [''b.txt'', ''notes.md'', ''a.txt'', ''c.txt'']\<rparr>)"
  by (simp add: retrieve_defs two_file_corpus_def two_file_rag_def length_encode_def)

text \<open>
  Claim C10, amended. Of the file system, retrieval reads the current listing of the
  directory and nothing else: file systems with the same listing give the same result,
  whatever their persisted artifacts are. The sources are read from the ascending list of
  the currently listed names that end in \<open>.txt\<close>: each label below the length of that list
  gives the name at its position. For one pipeline and question and two listings, the
  chunks are the same, and the sources are the same exactly when the same labels are below
  both lengths and each of them finds the same name in both sorted lists.
\<close>

theorem sources_follow_current_listing:
  "(kb_listing fs1 = kb_listing fs2 \<longrightarrow>
      retrieve_context encode self fs1 q k = retrieve_context encode self fs2 q k)
   \<and> sorted (sorted_txt names)
   \<and> sorted_txt names = sort (filter (\<lambda>f. \<exists>stem. f = stem @ ''.txt'') names)
   \<and> (retrieve_context encode self fs1 q k = Inr (chunks1, srcs1)
        \<and> index self = IndexFlatL2 rows \<and> kb_listing fs1 = Some names1
      \<longrightarrow> chunks1 = map (\<lambda>i. documents self ! position (length (documents self)) i)
                        (search rows (encode q) k)
          \<and> srcs1 = map (\<lambda>i. sorted_txt names1 ! position (length (sorted_txt names1)) i)
                       (filter (\<lambda>i. i < int (length (sorted_txt names1)))
                          (search rows (encode q) k)))
   \<and> (retrieve_context encode self fs1 q k = Inr (chunks1, srcs1)
        \<and> retrieve_context encode self fs2 q k = Inr (chunks2, srcs2)
        \<and> index self = IndexFlatL2 rows
        \<and> kb_listing fs1 = Some names1 \<and> kb_listing fs2 = Some names2
      \<longrightarrow> chunks1 = chunks2
          \<and> (srcs1 = srcs2 \<longleftrightarrow>
               filter (\<lambda>i. i < int (length (sorted_txt names1))) (search rows (encode q) k)
                 = filter (\<lambda>i. i < int (length (sorted_txt names2))) (search rows (encode q) k)
               \<and> (\<forall>i\<in>set (filter (\<lambda>i. i < int (length (sorted_txt names1)))
                              (search rows (encode q) k)).
                     sorted_txt names1 ! position (length (sorted_txt names1)) i
                       = sorted_txt names2 ! position (length (sorted_txt names2)) i)))"
proof (intro conjI impI)
  assume "kb_listing fs1 = kb_listing fs2"
  then show "retrieve_context encode self fs1 q k = retrieve_context encode self fs2 q k"
    by (rule retrieve_same_listing)
next
  show "sorted (sorted_txt names)" by (rule sorted_sorted_txt)
  show "sorted_txt names = sort (filter (\<lambda>f. \<exists>stem. f = stem @ ''.txt'') names)"
    by (rule sorted_txt_eq)
next
  assume a: "retrieve_context encode self fs1 q k = Inr (chunks1, srcs1)
        \<and> index self = IndexFlatL2 rows \<and> kb_listing fs1 = Some names1"
  then show "chunks1 = map (\<lambda>i. documents self ! position (length (documents self)) i)
                        (search rows (encode q) k)"
    by (intro retrieve_formula(1) [of encode self fs1 q k chunks1 srcs1 rows names1]) simp_all
  from a show "srcs1 = map (\<lambda>i. sorted_txt names1 ! position (length (sorted_txt names1)) i)
                       (filter (\<lambda>i. i < int (length (sorted_txt names1)))
                          (search rows (encode q) k))"
    by (intro retrieve_formula(2) [of encode self fs1 q k chunks1 srcs1 rows names1]) simp_all
next
  assume a: "retrieve_context encode self fs1 q k = Inr (chunks1, srcs1)
        \<and> retrieve_context encode self fs2 q k = Inr (chunks2, srcs2)
        \<and> index self = IndexFlatL2 rows
        \<and> kb_listing fs1 = Some names1 \<and> kb_listing fs2 = Some names2"
  let ?idx = "search rows (encode q) k"
  let ?S1 = "sorted_txt names1" and ?S2 = "sorted_txt names2"
  let ?K1 = "filter (\<lambda>i. i < int (length ?S1)) ?idx"
  let ?K2 = "filter (\<lambda>i. i < int (length ?S2)) ?idx"
  let ?g1 = "\<lambda>i. ?S1 ! position (length ?S1) i" and ?g2 = "\<lambda>i. ?S2 ! position (length ?S2) i"
  from a have r1: "retrieve_context encode self fs1 q k = Inr (chunks1, srcs1)"
    and r2: "retrieve_context encode self fs2 q k = Inr (chunks2, srcs2)"
    and ix: "index self = IndexFlatL2 rows"
    and l1: "kb_listing fs1 = Some names1" and l2: "kb_listing fs2 = Some names2"
    by simp_all
  from retrieve_formula(1) [OF r1 ix l1] retrieve_formula(1) [OF r2 ix l2]
  show "chunks1 = chunks2" by simp
  have s1: "srcs1 = map ?g1 ?K1" by (rule retrieve_formula(2) [OF r1 ix l1])
  have s2: "srcs2 = map ?g2 ?K2" by (rule retrieve_formula(2) [OF r2 ix l2])
  show "srcs1 = srcs2 \<longleftrightarrow> ?K1 = ?K2 \<and> (\<forall>i\<in>set ?K1. ?g1 i = ?g2 i)"
  proof
    assume eq: "srcs1 = srcs2"
    with s1 s2 have "length ?K1 = length ?K2" by (metis length_map)
    then have k: "?K1 = ?K2" by (rule kept_eq)
    with eq s1 s2 have "map ?g1 ?K1 = map ?g2 ?K1" by simp
    then have "\<forall>i\<in>set ?K1. ?g1 i = ?g2 i" by (simp only: map_eq_conv)
    with k show "?K1 = ?K2 \<and> (\<forall>i\<in>set ?K1. ?g1 i = ?g2 i)" by simp
  next
    assume h: "?K1 = ?K2 \<and> (\<forall>i\<in>set ?K1. ?g1 i = ?g2 i)"
    then have "\<forall>i\<in>set ?K1. ?g1 i = ?g2 i" by (rule conjunct2)
    then have "map ?g1 ?K1 = map ?g2 ?K1" by (simp only: map_eq_conv)
    with h s1 s2 show "srcs1 = srcs2" by simp
  qed
qed

text \<open>One pipeline, one question, two directories: the same chunk, named \<open>b.txt\<close> in one
  call and \<open>d.txt\<close> in the other.\<close>

theorem sources_follow_current_listing_witness:
  "retrieve_context length_encode two_file_rag two_file_corpus ''xxxx'' 1
     = Inr ([''bbbb''], [''b.txt''])
   \<and> retrieve_context length_encode two_file_rag
        (two_file_corpus\<lparr>kb_listing := Some [''c.txt'', ''d.txt'']\<rparr>) ''xxxx'' 1
     = Inr ([''bbbb''], [''d.txt''])
   \<and> index two_file_rag = IndexFlatL2 [[2], [4]]
   \<and> kb_listing two_file_corpus = Some [''b.txt'', ''notes.md'', ''a.txt'']
   \<and> kb_listing (two_file_corpus\<lparr>kb_listing := Some [''c.txt'', ''d.txt'']\<rparr>)
       = Some [''c.txt'', ''d.txt'']
   \<and> [''b.txt''] =
       map (\<lambda>i. sorted_txt [''b.txt'', ''notes.md'', ''a.txt'']
                  ! position (length (sorted_txt [''b.txt'', ''notes.md'', ''a.txt''])) i)
         (filter (\<lambda>i. i < int (length (sorted_txt [''b.txt'', ''notes.md'', ''a.txt''])))
            (search [[2], [4]] (length_encode ''xxxx'') 1))
   \<and> search [[2], [4]] (length_encode ''xxxx'') 1 = [1]
   \<and> sorted_txt [''b.txt'', ''notes.md'', ''a.txt''] = [''a.txt'', ''b.txt'']
   \<and> sorted_txt [''c.txt'', ''d.txt''] = [''c.txt'', ''d.txt'']
   \<and> [''b.txt''] \<noteq> [''d.txt'']"
proof -
  let ?fs2 = "two_file_corpus\<lparr>kb_listing := Some [''c.txt'', ''d.txt'']\<rparr>"
  have r2: "retrieve_context length_encode two_file_rag ?fs2 ''xxxx'' 1
     = Inr ([''bbbb''], [''d.txt''])"
    by (simp add: retrieve_defs two_file_corpus_def two_file_rag_def length_encode_def)
  have ix: "index two_file_rag = IndexFlatL2 [[2], [4]]" by (simp add: two_file_rag_def)
  have l1: "kb_listing two_file_corpus = Some [''b.txt'', ''notes.md'', ''a.txt'']"
    by (simp add: two_file_corpus_def)
  have l2: "kb_listing ?fs2 = Some [''c.txt'', ''d.txt'']"
    by simp
  have s: "search [[2], [4]] (length_encode ''xxxx'') 1 = [1]"
    by (simp add: search_def nearest_rows_def l2sq_def length_encode_def)
  have n1: "sorted_txt [''b.txt'', ''notes.md'', ''a.txt''] = [''a.txt'', ''b.txt'']"
    by (simp add: sorted_txt_def endswith_def)
  have n2: "sorted_txt [''c.txt'', ''d.txt''] = [''c.txt'', ''d.txt'']"
    by (simp add: sorted_txt_def endswith_def)
  note t = sources_follow_current_listing [of two_file_corpus ?fs2 length_encode two_file_rag
      "''xxxx''" 1 "[]" "[''bbbb'']" "[''b.txt'']" "[[2], [4]]"
      "[''b.txt'', ''notes.md'', ''a.txt'']" "[''bbbb'']" "[''d.txt'']" "[''c.txt'', ''d.txt'']"]
  from t two_file_retrieval ix l1
  have f: "[''b.txt''] =
       map (\<lambda>i. sorted_txt [''b.txt'', ''notes.md'', ''a.txt'']
                  ! position (length (sorted_txt [''b.txt'', ''notes.md'', ''a.txt''])) i)
         (filter (\<lambda>i. i < int (length (sorted_txt [''b.txt'', ''notes.md'', ''a.txt''])))
            (search [[2], [4]] (length_encode ''xxxx'') 1))"
    by blast
  from t two_file_retrieval r2 ix l1 l2
  have "[''b.txt''] = [''d.txt''] \<longleftrightarrow>
        filter (\<lambda>i. i < int (length (sorted_txt [''b.txt'', ''notes.md'', ''a.txt''])))
            (search [[2], [4]] (length_encode ''xxxx'') 1)
          = filter (\<lambda>i. i < int (length (sorted_txt [''c.txt'', ''d.txt''])))
            (search [[2], [4]] (length_encode ''xxxx'') 1)
        \<and> (\<forall>i\<in>set (filter (\<lambda>i. i < int (length (sorted_txt [''b.txt'', ''notes.md'', ''a.txt''])))
            (search [[2], [4]] (length_encode ''xxxx'') 1)).
              sorted_txt [''b.txt'', ''notes.md'', ''a.txt'']
                  ! position (length (sorted_txt [''b.txt'', ''notes.md'', ''a.txt''])) i
              = sorted_txt [''c.txt'', ''d.txt'']
                  ! position (length (sorted_txt [''c.txt'', ''d.txt''])) i)"
    by blast
  then have d: "[''b.txt''] \<noteq> [''d.txt'']"
    by (simp add: s n1 n2 position_def)
  from two_file_retrieval r2 ix l1 l2 f s n1 n2 d show ?thesis by blast
qed

lemma search_rows_only:
  assumes "k \<le> length rows" and "j < k"
  shows "\<exists>i<length rows. search rows q k ! j = int i"
proof -
  from assms have "search rows q k ! j \<in> set (search rows q k)"
    by (simp add: length_search)
  then have "0 \<le> search rows q k ! j" and "search rows q k ! j < int (length rows)"
    using search_no_padding [OF assms(1)] search_range by blast+
  then have "nat (search rows q k ! j) < length rows \<and> search rows q k ! j = int (nat (search rows q k ! j))"
    by simp
  then show ?thesis by blast
qed

section \<open>The alignment of rows, documents and file names\<close>

text \<open>
  Claim C3, as stated, says that the alignment holds for every query served after a build.
  The file names are listed again at every retrieval: after a build from \<open>a.txt\<close> and
  \<open>b.txt\<close>, a file \<open>0.txt\<close> added to the directory takes position 0, and the text of
  \<open>a.txt\<close> is returned under the name \<open>0.txt\<close>.
\<close>

theorem stale_listing_counterexample:
  "build_vector_store length_encode \<lparr>documents = [], index = Unset\<rparr> two_file_corpus =
     Inr (two_file_rag,
          two_file_corpus\<lparr>vector_store_file := Some [[2], [4]],
                          documents_file := Some [''aa'', ''bbbb'']\<rparr>)
   \<and> retrieve_context length_encode two_file_rag
         (two_file_corpus\<lparr>vector_store_file := Some [[2], [4]],
                         documents_file := Some [''aa'', ''bbbb''],
                         kb_listing := Some [''b.txt'', ''notes.md'', ''a.txt'', ''0.txt'']\<rparr>)
         ''x'' 1
       = Inr ([''aa''], [''0.txt''])
   \<and> kb_read two_file_corpus ''a.txt'' = Some ''aa''
   \<and> kb_read two_file_corpus ''0.txt'' = None"
  by (simp add: build_defs retrieve_defs two_file_corpus_def two_file_rag_def length_encode_def)

text \<open>
  Claim C3, amended. After a build of a non-empty corpus, for a query served while the
  directory lists what the build saw and for \<open>k\<close> not above the number of documents: every
  label \<open>i\<close> returned by the search is mapped to the chunk \<open>documents[i]\<close> and to the source
  \<open>i\<close> of the sorted listing, row \<open>i\<close> of the index is the embedding of document \<open>i\<close>, and
  document \<open>i\<close> is the text that the build read from file \<open>i\<close> of the sorted listing.
\<close>

theorem alignment_while_listing_unchanged:
  assumes "build_vector_store encode self0 fs = Inr (self, fs')"
    and "documents self \<noteq> []"
    and "kb_listing fs = Some names" and "kb_listing fs_q = Some names"
    and "k \<le> length (documents self)"
  shows "\<exists>rows chunks srcs.
           index self = IndexFlatL2 rows
         \<and> retrieve_context encode self fs_q q k = Inr (chunks, srcs)
         \<and> length chunks = k \<and> length srcs = k
         \<and> (\<forall>j<k. \<exists>i<length (documents self).
                search rows (encode q) k ! j = int i
              \<and> chunks ! j = documents self ! i
              \<and> srcs ! j = sorted_txt names ! i
              \<and> rows ! i = encode (documents self ! i)
              \<and> kb_read fs (sorted_txt names ! i) = Some (documents self ! i))"
proof -
  let ?docs = "documents self" and ?names = "sorted_txt names"
  let ?rows = "map encode ?docs"
  let ?idx = "search ?rows (encode q) k"
  note b = build_documents [OF assms(1,2,3)]
  from assms(5) have k: "k \<le> length ?rows" by simp
  have rng: "0 \<le> i \<and> i < int (length ?docs)" if "i \<in> set ?idx" for i
    using search_no_padding [OF k that] search_range [OF that] by simp
  have c: "comprehension (subscript ?docs) ?idx = Inr (map (\<lambda>i. ?docs ! nat i) ?idx)"
    by (rule comprehension_map) (use rng in \<open>auto simp: subscript_def\<close>)
  have all: "filter (\<lambda>i. i < int (length ?names)) ?idx = ?idx"
    using rng b(2) by (simp add: filter_id_conv)
  have s: "comprehension (subscript ?names) ?idx = Inr (map (\<lambda>i. ?names ! nat i) ?idx)"
    by (rule comprehension_map) (use rng b(2) in \<open>auto simp: subscript_def\<close>)
  have r: "retrieve_context encode self fs_q q k =
             Inr (map (\<lambda>i. ?docs ! nat i) ?idx, map (\<lambda>i. ?names ! nat i) ?idx)"
    using c s all assms(4) by (simp add: retrieve_with_index [OF b(1)])
  have rows: "\<exists>i<length ?docs.
                ?idx ! j = int i
              \<and> map (\<lambda>i. ?docs ! nat i) ?idx ! j = ?docs ! i
              \<and> map (\<lambda>i. ?names ! nat i) ?idx ! j = ?names ! i
              \<and> ?rows ! i = encode (?docs ! i)
              \<and> kb_read fs (?names ! i) = Some (?docs ! i)" if "j < k" for j
  proof -
    from search_rows_only [OF k that, of "encode q"]
    obtain i where i: "i < length ?docs" "?idx ! j = int i" by auto
    with that b(3) show ?thesis by (auto simp: length_search)
  qed
  from b(1) r rows show ?thesis by (simp add: length_search)
qed

text \<open>The build from \<open>two_file_corpus\<close>, queried with \<open>k = 1\<close>.\<close>

theorem alignment_while_listing_unchanged_witness:
  "build_vector_store length_encode \<lparr>documents = [], index = Unset\<rparr> two_file_corpus =
     Inr (two_file_rag,
          two_file_corpus\<lparr>vector_store_file := Some [[2], [4]],
                          documents_file := Some [''aa'', ''bbbb'']\<rparr>)
   \<and> documents two_file_rag \<noteq> []
   \<and> kb_listing two_file_corpus = Some [''b.txt'', ''notes.md'', ''a.txt'']
   \<and> 1 \<le> length (documents two_file_rag)
   \<and> (\<exists>rows chunks srcs.
           index two_file_rag = IndexFlatL2 rows
         \<and> retrieve_context length_encode two_file_rag two_file_corpus ''xxxx'' 1
             = Inr (chunks, srcs)
         \<and> length chunks = 1 \<and> length srcs = 1
         \<and> (\<forall>j<1. \<exists>i<length (documents two_file_rag).
                search rows (length_encode ''xxxx'') 1 ! j = int i
              \<and> chunks ! j = documents two_file_rag ! i
              \<and> srcs ! j = sorted_txt [''b.txt'', ''notes.md'', ''a.txt''] ! i
              \<and> rows ! i = length_encode (documents two_file_rag ! i)
              \<and> kb_read two_file_corpus (sorted_txt [''b.txt'', ''notes.md'', ''a.txt''] ! i)
                  = Some (documents two_file_rag ! i)))
   \<and> retrieve_context length_encode two_file_rag two_file_corpus ''xxxx'' 1
       = Inr ([''bbbb''], [''b.txt''])
   \<and> kb_read two_file_corpus ''b.txt'' = Some ''bbbb''"
proof -
  have r: "kb_read two_file_corpus ''b.txt'' = Some ''bbbb''"
    by (simp add: two_file_corpus_def)
  have b: "build_vector_store length_encode \<lparr>documents = [], index = Unset\<rparr> two_file_corpus =
     Inr (two_file_rag,
          two_file_corpus\<lparr>vector_store_file := Some [[2], [4]],
                          documents_file := Some [''aa'', ''bbbb'']\<rparr>)"
    by (simp add: build_defs two_file_corpus_def two_file_rag_def length_encode_def)
  have d: "documents two_file_rag \<noteq> []" by (simp add: two_file_rag_def)
  have l: "kb_listing two_file_corpus = Some [''b.txt'', ''notes.md'', ''a.txt'']"
    by (simp add: two_file_corpus_def)
  have k: "1 \<le> length (documents two_file_rag)" by (simp add: two_file_rag_def)
  from alignment_while_listing_unchanged [OF b d l l k, of "''xxxx''"] b d l k
    two_file_retrieval r
  show ?thesis by blast
qed

end
